theory Spec2Isabelle
  imports Complex_Main
begin

section \<open>The reciprocity engine: data model\<close>

text \<open>
  A shallow embedding of \<^verbatim>\<open>src/engine/reciprocity_engine.py\<close>, class
  \<^verbatim>\<open>ReciprocalTruthEnforcer\<close>. Python dictionaries are maps, the set of known users is a
  set, lists are lists, and every method takes the store and returns the store it leaves
  behind together with either the value it returns or the exception it raises. A method
  that raises after it has already mutated the store returns the mutated store.

  Values follow the types the source documents: user ids, artifact ids, scopes and expiry
  values are strings, the extractive flag is a boolean.

  Consent dictionaries are held by value. The only in-place mutation of one is
  \<^verbatim>\<open>self.consent[user_id]["extractive"] = False\<close> in \<^verbatim>\<open>revoke_consent\<close>; the dictionary it
  changes is referenced from \<^verbatim>\<open>self.consent\<close> alone, since every snapshot is made with
  \<^verbatim>\<open>.copy()\<close>.

  The scope list of a consent dictionary is an object of its own. \<^verbatim>\<open>set_consent\<close> stores
  the list object the caller passes, and \<^verbatim>\<open>consent_obj.copy()\<close> is a shallow copy, so the
  live consent state, every snapshot taken from it and the caller share that one list. Such
  a list is a reference into the caller's list objects, whose contents the store carries
  in \<open>caller_lists\<close>. A list the engine creates itself (\<^verbatim>\<open>[]\<close> in \<^verbatim>\<open>register_user\<close> and for
  \<^verbatim>\<open>scope=None\<close>) is referenced from the store alone and no method changes it, so it is held
  by value. \<^verbatim>\<open>get_consent_history\<close> returns the history list of the store itself; a caller
  that changes what this method returns writes into the store directly, and that is not a
  step of the model.
\<close>

type_synonym user_id = string
type_synonym artifact_id = string

text \<open>A \<^verbatim>\<open>datetime.date\<close>, as its proleptic Gregorian ordinal.\<close>
type_synonym date = int

text \<open>The identity of a list object of the caller.\<close>
type_synonym ref = nat

datatype list_obj = Owned "string list" | Passed ref

record consent_state =
  extractive :: bool
  expires :: "string option"
  scope :: list_obj

record receipt_record =
  timestamp :: string
  receipt :: string
  snapshot :: consent_state

record anchor_entry =
  anchor_receipt :: string
  anchor_timestamp :: string

record reuse_entry =
  artifact_id :: artifact_id
  disclosed :: bool
  reuse_timestamp :: string

record store =
  consent :: "user_id \<rightharpoonup> consent_state"
  receipts :: "user_id \<rightharpoonup> receipt_record list"
  receipt_anchor :: "anchor_entry list"
  attribution :: "artifact_id \<rightharpoonup> user_id list"
  artifact_state :: "artifact_id \<rightharpoonup> string"
  reuse_log :: "reuse_entry list"
  known_users :: "user_id set"
  extractive_ingests :: nat
  published_count :: nat
  caller_lists :: "ref \<Rightarrow> string list"

text \<open>
  What the engine takes from the Python runtime and library, as parameters:
  \<^verbatim>\<open>x.encode()\<close>, which is \<open>None\<close> where Python raises \<^verbatim>\<open>UnicodeEncodeError\<close> (a text
  with a lone surrogate), \<^verbatim>\<open>hashlib.sha256(b).hexdigest()\<close> of the encoded bytes, \<^verbatim>\<open>repr\<close>
  of a string (used by \<^verbatim>\<open>str\<close> of a dictionary), the built-in \<^verbatim>\<open>hash\<close> of a string, and
  \<^verbatim>\<open>datetime.fromisoformat(x).date()\<close>, which is \<open>None\<close> where Python raises
  \<^verbatim>\<open>ValueError\<close>.
\<close>

record env =
  encode_utf8 :: "string \<Rightarrow> string option"
  sha256_hexdigest :: "string \<Rightarrow> string"
  repr_str :: "string \<Rightarrow> string"
  py_hash :: "string \<Rightarrow> int"
  fromisoformat_date :: "string \<Rightarrow> date option"

text \<open>
  One reading of the clock: \<^verbatim>\<open>date.today()\<close>, \<^verbatim>\<open>datetime.utcnow().isoformat()\<close> and
  \<^verbatim>\<open>str(datetime.utcnow())\<close>. Each call of a method is given one reading.
\<close>

record clock =
  today :: date
  utcnow_iso :: string
  utcnow_str :: string

datatype perm_reason = ConsentRequired | ScopeNotGranted

datatype value_reason = ArtifactNotFound artifact_id | InvalidTransition string string

text \<open>
  The exceptions of the source. The two \<^verbatim>\<open>PermissionError\<close> and the two \<^verbatim>\<open>ValueError\<close>
  messages are kept as tags. \<open>KeyError\<close> is what a dictionary lookup of an absent key
  raises, \<open>UnicodeEncodeError\<close> what \<^verbatim>\<open>.encode()\<close> raises.
\<close>

datatype error =
  PermissionError perm_reason | ValueError value_reason | KeyError | UnicodeEncodeError

record ingest_result =
  status :: string
  result_artifact_id :: "artifact_id option"

text \<open>
  The report of \<^verbatim>\<open>audit\<close>. The six ratios are Python floats rounded to four decimals; here
  they are exact quotients (real numbers) rounded to four decimals.
\<close>

record report =
  RIM_1 :: real
  RIM_2 :: real
  RIM_3 :: real
  RIM_4 :: real
  RIM_5 :: real
  RIM_6 :: real
  total_users :: nat
  active_consenting_users :: nat
  report_extractive_ingests :: nat
  ever_published_artifacts :: nat
  attributed_artifacts :: nat
  total_reuses :: nat
  silent_reuses :: nat
  artifact_states :: "string \<rightharpoonup> nat"
  total_receipts_issued :: nat
  anchored_receipts :: nat

section \<open>The methods\<close>

text \<open>
  \<^verbatim>\<open>__init__\<close>. The caller has made no list yet: every list object of the caller is empty
  until the caller gives it a content.
\<close>

definition init_store :: store where
  "init_store =
     \<lparr>consent = Map.empty, receipts = Map.empty, receipt_anchor = [],
      attribution = Map.empty, artifact_state = Map.empty, reuse_log = [],
      known_users = {}, extractive_ingests = 0, published_count = 0,
      caller_lists = (\<lambda>r. [])\<rparr>"

definition default_consent :: consent_state where
  "default_consent = \<lparr>extractive = False, expires = None, scope = Owned []\<rparr>"

definition register_user :: "store \<Rightarrow> user_id \<Rightarrow> store" where
  "register_user s uid =
     (let s1 = s\<lparr>known_users := insert uid (known_users s)\<rparr>;
          s2 = (if consent s1 uid = None
                then s1\<lparr>consent := (consent s1)(uid \<mapsto> default_consent)\<rparr> else s1)
      in if receipts s2 uid = None
         then s2\<lparr>receipts := (receipts s2)(uid \<mapsto> [])\<rparr> else s2)"

text \<open>The present content of the scope list of a consent dictionary.\<close>

definition scope_list :: "(ref \<Rightarrow> string list) \<Rightarrow> consent_state \<Rightarrow> string list" where
  "scope_list heap c = (case scope c of Owned l \<Rightarrow> l | Passed r \<Rightarrow> heap r)"

text \<open>
  \<^verbatim>\<open>str(consent_obj)\<close>: the keys in insertion order, which every constructor of a consent
  dictionary fixes as extractive, expires, scope. It reads the scope list as it is now.
\<close>

fun join_comma :: "string list \<Rightarrow> string" where
  "join_comma [] = []"
| "join_comma [x] = x"
| "join_comma (x # y # ys) = x @ '', '' @ join_comma (y # ys)"

definition str_consent :: "env \<Rightarrow> (ref \<Rightarrow> string list) \<Rightarrow> consent_state \<Rightarrow> string" where
  "str_consent e heap c =
     ''{'' @ repr_str e ''extractive'' @ '': '' @ (if extractive c then ''True'' else ''False'')
     @ '', '' @ repr_str e ''expires'' @ '': ''
     @ (case expires c of None \<Rightarrow> ''None'' | Some x \<Rightarrow> repr_str e x)
     @ '', '' @ repr_str e ''scope'' @ '': ''
     @ ''['' @ join_comma (map (repr_str e) (scope_list heap c)) @ '']'' @ ''}''"

text \<open>
  Lines 25 and 26: \<^verbatim>\<open>hashlib.sha256(f"{user_id}|{str(consent_obj)}".encode()).hexdigest()\<close>,
  \<open>None\<close> where \<^verbatim>\<open>.encode()\<close> raises.
\<close>

definition receipt_digest ::
  "env \<Rightarrow> (ref \<Rightarrow> string list) \<Rightarrow> user_id \<Rightarrow> consent_state \<Rightarrow> string option" where
  "receipt_digest e heap uid c =
     map_option (sha256_hexdigest e) (encode_utf8 e (uid @ ''|'' @ str_consent e heap c))"

definition generate_consent_receipt ::
  "env \<Rightarrow> clock \<Rightarrow> store \<Rightarrow> user_id \<Rightarrow> (error + string) \<times> store" where
  "generate_consent_receipt e clk s uid =
     (case consent s uid of
        None \<Rightarrow> (Inl KeyError, s)
      | Some consent_obj \<Rightarrow>
          (case receipt_digest e (caller_lists s) uid consent_obj of
             None \<Rightarrow> (Inl UnicodeEncodeError, s)
           | Some r \<Rightarrow>
               (let rec = \<lparr>timestamp = utcnow_iso clk, receipt = r, snapshot = consent_obj\<rparr>
                in case receipts s uid of
                     None \<Rightarrow> (Inl KeyError, s)
                   | Some h \<Rightarrow>
                       (Inr r,
                        s\<lparr>receipts := (receipts s)(uid \<mapsto> h @ [rec]),
                          receipt_anchor := receipt_anchor s
                             @ [\<lparr>anchor_receipt = r, anchor_timestamp = timestamp rec\<rparr>]\<rparr>))))"

text \<open>An optional list argument: \<^verbatim>\<open>if x is None: x = []\<close>.\<close>

definition given :: "'a list option \<Rightarrow> 'a list" where
  "given xs = (case xs of None \<Rightarrow> [] | Some x \<Rightarrow> x)"

text \<open>
  The \<^verbatim>\<open>scope\<close> argument of \<^verbatim>\<open>set_consent\<close>: \<open>None\<close>, for which the method makes a new empty
  list, or a list object of the caller, which the method stores as it is.
\<close>

definition scope_arg :: "ref option \<Rightarrow> list_obj" where
  "scope_arg sc = (case sc of None \<Rightarrow> Owned [] | Some r \<Rightarrow> Passed r)"

definition set_consent ::
  "env \<Rightarrow> clock \<Rightarrow> store \<Rightarrow> user_id \<Rightarrow> bool \<Rightarrow> string option \<Rightarrow> ref option
     \<Rightarrow> (error + string) \<times> store" where
  "set_consent e clk s uid ex expiry sc =
     (let s1 = register_user s uid;
          s2 = s1\<lparr>consent := (consent s1)
                  (uid \<mapsto> \<lparr>extractive = ex, expires = expiry, scope = scope_arg sc\<rparr>)\<rparr>
      in generate_consent_receipt e clk s2 uid)"

definition revoke_consent :: "env \<Rightarrow> clock \<Rightarrow> store \<Rightarrow> user_id \<Rightarrow> (error + string) \<times> store" where
  "revoke_consent e clk s uid =
     (let s1 = register_user s uid;
          s2 = (case consent s1 uid of
                  None \<Rightarrow> s1
                | Some c \<Rightarrow> s1\<lparr>consent := (consent s1)(uid \<mapsto> c\<lparr>extractive := False\<rparr>)\<rparr>)
      in generate_consent_receipt e clk s2 uid)"

definition get_latest_receipt :: "store \<Rightarrow> user_id \<Rightarrow> string option" where
  "get_latest_receipt s uid =
     (case receipts s uid of
        None \<Rightarrow> None
      | Some h \<Rightarrow> if h = [] then None else Some (receipt (last h)))"

definition get_consent_history :: "store \<Rightarrow> user_id \<Rightarrow> receipt_record list" where
  "get_consent_history s uid = (case receipts s uid of None \<Rightarrow> [] | Some h \<Rightarrow> h)"

text \<open>\<^verbatim>\<open>expires.split('T')[0]\<close>: the text before the first \<^verbatim>\<open>T\<close>.\<close>

definition date_portion :: "string \<Rightarrow> string" where
  "date_portion x = takeWhile (\<lambda>ch. ch \<noteq> CHR ''T'') x"

text \<open>
  \<^verbatim>\<open>if expires:\<close> is false for \<open>None\<close> and for the empty string; a \<^verbatim>\<open>ValueError\<close> of the
  parser is caught and ignored.
\<close>

definition is_active_extractive :: "env \<Rightarrow> clock \<Rightarrow> store \<Rightarrow> user_id \<Rightarrow> bool" where
  "is_active_extractive e clk s uid =
     (case consent s uid of
        None \<Rightarrow> False
      | Some c \<Rightarrow>
          if \<not> extractive c then False
          else (case expires c of
                  None \<Rightarrow> True
                | Some x \<Rightarrow>
                    if x = [] then True
                    else (case fromisoformat_date e (date_portion x) of
                            None \<Rightarrow> True
                          | Some expiry_date \<Rightarrow> if today clk > expiry_date then False else True)))"

definition record_derivative :: "store \<Rightarrow> artifact_id \<Rightarrow> user_id \<Rightarrow> store" where
  "record_derivative s aid origin_user =
     (let s1 = (if attribution s aid = None
                then s\<lparr>attribution := (attribution s)(aid \<mapsto> [])\<rparr> else s)
      in case attribution s1 aid of
           None \<Rightarrow> s1
         | Some l \<Rightarrow>
             if origin_user \<notin> set l
             then s1\<lparr>attribution := (attribution s1)(aid \<mapsto> l @ [origin_user])\<rparr> else s1)"

text \<open>\<^verbatim>\<open>str\<close> of a Python integer.\<close>

definition digit :: "nat \<Rightarrow> char" where
  "digit n = ''0123456789'' ! n"

fun str_nat :: "nat \<Rightarrow> string" where
  "str_nat n = (if n < 10 then [digit n] else str_nat (n div 10) @ [digit (n mod 10)])"

definition str_int :: "int \<Rightarrow> string" where
  "str_int i = (if i < 0 then ''-'' @ str_nat (nat (- i)) else str_nat (nat i))"

text \<open>
  Lines 88 to 95 of \<^verbatim>\<open>ingest\<close>: the exception the enforcement raises, if any. The store is
  the one after registration. The lookup \<^verbatim>\<open>self.consent[user_id]\<close> of line 93 raises
  \<^verbatim>\<open>KeyError\<close> on an absent key.
\<close>

definition ingest_enforce ::
  "env \<Rightarrow> clock \<Rightarrow> store \<Rightarrow> user_id \<Rightarrow> bool \<Rightarrow> string list \<Rightarrow> error option" where
  "ingest_enforce e clk s uid ex required_scopes =
     (if ex \<or> required_scopes \<noteq> [] then
        if \<not> is_active_extractive e clk s uid then Some (PermissionError ConsentRequired)
        else if required_scopes \<noteq> [] then
          (case consent s uid of
             None \<Rightarrow> Some KeyError
           | Some c \<Rightarrow>
               if \<not> set required_scopes \<subseteq> set (scope_list (caller_lists s) c)
               then Some (PermissionError ScopeNotGranted) else None)
        else None
      else None)"

text \<open>
  \<^verbatim>\<open>ingest\<close>. The payload is given as its \<^verbatim>\<open>str\<close>; the artifact id is
  \<^verbatim>\<open>f"artifact_{hash(str(payload) + str(datetime.utcnow()))}"\<close>.
\<close>

definition ingest ::
  "env \<Rightarrow> clock \<Rightarrow> store \<Rightarrow> user_id \<Rightarrow> string \<Rightarrow> bool \<Rightarrow> string list option
     \<Rightarrow> (error + ingest_result) \<times> store" where
  "ingest e clk s uid payload ex rs =
     (let s1 = register_user s uid;
          required_scopes = given rs
      in case ingest_enforce e clk s1 uid ex required_scopes of
           Some err \<Rightarrow> (Inl err, s1)
         | None \<Rightarrow>
             (let aid = ''artifact_'' @ str_int (py_hash e (payload @ utcnow_str clk))
              in if ex then
                   (Inr \<lparr>status = ''Processed'', result_artifact_id = Some aid\<rparr>,
                    (let s2 = s1\<lparr>extractive_ingests := extractive_ingests s1 + 1\<rparr>;
                         s3 = record_derivative s2 aid uid
                     in s3\<lparr>artifact_state := (artifact_state s3)(aid \<mapsto> ''generated'')\<rparr>))
                 else (Inr \<lparr>status = ''Processed'', result_artifact_id = None\<rparr>, s1)))"

definition valid_transitions :: "string \<rightharpoonup> string list" where
  "valid_transitions =
     [''generated'' \<mapsto> [''used'', ''archived''],
      ''used'' \<mapsto> [''published'', ''archived''],
      ''published'' \<mapsto> [''archived''],
      ''archived'' \<mapsto> []]"

definition transition_artifact_state ::
  "store \<Rightarrow> artifact_id \<Rightarrow> string \<Rightarrow> (error + unit) \<times> store" where
  "transition_artifact_state s aid new_state =
     (case artifact_state s aid of
        None \<Rightarrow> (Inl (ValueError (ArtifactNotFound aid)), s)
      | Some current \<Rightarrow>
          if new_state \<notin> set (case valid_transitions current of None \<Rightarrow> [] | Some l \<Rightarrow> l)
          then (Inl (ValueError (InvalidTransition current new_state)), s)
          else
            (let s1 = (if new_state = ''published''
                       then s\<lparr>published_count := published_count s + 1\<rparr> else s)
             in (Inr (), s1\<lparr>artifact_state := (artifact_state s1)(aid \<mapsto> new_state)\<rparr>)))"

text \<open>
  \<^verbatim>\<open>log_reuse\<close> reads \<^verbatim>\<open>self.artifact_state[artifact_id]\<close> under the test
  \<^verbatim>\<open>artifact_id in self.artifact_state\<close>; the read is a lookup that raises on an absent key.
\<close>

definition log_reuse ::
  "clock \<Rightarrow> store \<Rightarrow> artifact_id \<Rightarrow> bool \<Rightarrow> (error + unit) \<times> store" where
  "log_reuse clk s aid d =
     (let entry = \<lparr>artifact_id = aid, disclosed = d, reuse_timestamp = utcnow_iso clk\<rparr>
      in if aid \<in> dom (artifact_state s) then
           (case artifact_state s aid of
              None \<Rightarrow> (Inl KeyError, s)
            | Some st \<Rightarrow>
                (let s1 = (if st \<in> set [''generated'', ''used'']
                           then s\<lparr>artifact_state := (artifact_state s)(aid \<mapsto> ''used'')\<rparr> else s)
                 in (Inr (), s1\<lparr>reuse_log := reuse_log s1 @ [entry]\<rparr>)))
         else (Inr (), s\<lparr>reuse_log := reuse_log s @ [entry]\<rparr>))"

text \<open>
  Python's \<^verbatim>\<open>round(x, 4)\<close>, on the exact quotient: to the nearest multiple of one
  ten-thousandth, a tie to the even one. Python rounds the double nearest to the quotient,
  which lies beside a tie that the exact quotient hits: 1/160 is 0.00625 and is 0.0062
  here, where Python gives 0.0063. No ratio evaluated below is a tie.
\<close>

definition round_half_even :: "real \<Rightarrow> int" where
  "round_half_even x =
     (let f = \<lfloor>x\<rfloor>; d = x - of_int f
      in if d < 1 / 2 then f else if 1 / 2 < d then f + 1 else if even f then f else f + 1)"

definition round4 :: "real \<Rightarrow> real" where
  "round4 x = of_int (round_half_even (x * 10000)) / 10000"

definition ratio :: "nat \<Rightarrow> nat \<Rightarrow> real" where
  "ratio a b = of_nat a / of_nat b"

text \<open>
  \<^verbatim>\<open>audit\<close>. The generator expressions over \<^verbatim>\<open>known_users\<close> are cardinalities of filtered
  sets. The method goes over the known users three times (lines 144, 155 and 159) and calls
  \<^verbatim>\<open>is_active_extractive\<close>, which reads \<^verbatim>\<open>date.today()\<close>, for each user in each pass: the
  clock readings of an audit are a function of the pass and the user. In RIM-4 and RIM-5
  the lookup \<^verbatim>\<open>self.consent[uid]\<close> stands to the right of \<^verbatim>\<open>and\<close>, so it happens for the
  users that \<^verbatim>\<open>is_active_extractive\<close> accepts, and raises \<^verbatim>\<open>KeyError\<close> if such a user has
  no consent entry.
\<close>

type_synonym readings = "nat \<Rightarrow> user_id \<Rightarrow> clock"

definition active_users :: "env \<Rightarrow> (user_id \<Rightarrow> clock) \<Rightarrow> store \<Rightarrow> user_id set" where
  "active_users e rd s = {uid \<in> known_users s. is_active_extractive e (rd uid) s uid}"

definition state_count :: "store \<Rightarrow> string \<Rightarrow> nat" where
  "state_count s st = card {aid \<in> dom (artifact_state s). artifact_state s aid = Some st}"

definition audit :: "env \<Rightarrow> readings \<Rightarrow> store \<Rightarrow> error + report" where
  "audit e rd s =
     (let total = card (known_users s);
          active_consenting = card (active_users e (rd 0) s);
          rim_1 = (if total > 0 then round4 (ratio active_consenting total) else 0);
          attributed = card (dom (attribution s));
          rim_2 = (if extractive_ingests s > 0
                   then round4 (ratio attributed (extractive_ingests s)) else 0);
          reuses = length (reuse_log s);
          silent = length (filter (\<lambda>r. \<not> disclosed r) (reuse_log s));
          disclosed_rate = (if reuses > 0 then ratio (reuses - silent) reuses else 1);
          rim_3 = round4 disclosed_rate
      in if \<exists>uid \<in> active_users e (rd 1) s \<union> active_users e (rd 2) s. consent s uid = None
         then Inl KeyError
         else
           (let exp_count = card {uid \<in> active_users e (rd 1) s.
                                   case consent s uid of
                                     None \<Rightarrow> False | Some c \<Rightarrow> expires c \<noteq> None};
                rim_4 = (if active_consenting > 0
                         then round4 (ratio exp_count active_consenting) else 0);
                scope_count = card {uid \<in> active_users e (rd 2) s.
                                     case consent s uid of
                                       None \<Rightarrow> False
                                     | Some c \<Rightarrow> length (scope_list (caller_lists s) c) > 0};
                rim_5 = (if active_consenting > 0
                         then round4 (ratio scope_count active_consenting) else 0);
                total_generated = extractive_ingests s;
                rim_6 = (if total_generated > 0
                         then round4 (ratio (published_count s) total_generated) else 0)
            in Inr \<lparr>RIM_1 = rim_1, RIM_2 = rim_2, RIM_3 = rim_3, RIM_4 = rim_4,
                    RIM_5 = rim_5, RIM_6 = rim_6,
                    total_users = total,
                    active_consenting_users = active_consenting,
                    report_extractive_ingests = extractive_ingests s,
                    ever_published_artifacts = published_count s,
                    attributed_artifacts = attributed,
                    total_reuses = reuses,
                    silent_reuses = silent,
                    artifact_states =
                      [''generated'' \<mapsto> state_count s ''generated'',
                       ''used'' \<mapsto> state_count s ''used'',
                       ''published'' \<mapsto> state_count s ''published'',
                       ''archived'' \<mapsto> state_count s ''archived''],
                    total_receipts_issued =
                      (\<Sum>uid \<in> dom (receipts s). length (get_consent_history s uid)),
                    anchored_receipts = length (receipt_anchor s)\<rparr>))"

section \<open>Runs of public calls\<close>

text \<open>
  The public methods of the class as a datatype of calls, and what a call returns. A run
  is a list of calls, each with the clock reading it sees (an audit carries its own
  readings); a call that raises leaves the store it had reached, and the run goes on from
  there. One more step is not a method: \<open>Caller_sets\<close>, the caller giving one of its own
  list objects a content (making the list, appending to it, clearing it).
\<close>

datatype call =
    Register_user user_id
  | Set_consent user_id bool "string option" "ref option"
  | Revoke_consent user_id
  | Get_latest_receipt user_id
  | Get_consent_history user_id
  | Is_active_extractive user_id
  | Ingest user_id string bool "string list option"
  | Record_derivative artifact_id user_id
  | Transition_artifact_state artifact_id string
  | Log_reuse artifact_id bool
  | Audit readings
  | Caller_sets ref "string list"

datatype retval =
    RNone
  | RReceipt string
  | RLatest "string option"
  | RHistory "receipt_record list"
  | RBool bool
  | RIngest ingest_result
  | RReport report

definition returning :: "('a \<Rightarrow> retval) \<Rightarrow> (error + 'a) \<times> store \<Rightarrow> (error + retval) \<times> store" where
  "returning f p = (case fst p of Inl err \<Rightarrow> Inl err | Inr v \<Rightarrow> Inr (f v), snd p)"

fun exec :: "env \<Rightarrow> clock \<Rightarrow> store \<Rightarrow> call \<Rightarrow> (error + retval) \<times> store" where
  "exec e clk s (Register_user uid) = (Inr RNone, register_user s uid)"
| "exec e clk s (Set_consent uid ex expiry sc) =
     returning RReceipt (set_consent e clk s uid ex expiry sc)"
| "exec e clk s (Revoke_consent uid) = returning RReceipt (revoke_consent e clk s uid)"
| "exec e clk s (Get_latest_receipt uid) = (Inr (RLatest (get_latest_receipt s uid)), s)"
| "exec e clk s (Get_consent_history uid) = (Inr (RHistory (get_consent_history s uid)), s)"
| "exec e clk s (Is_active_extractive uid) = (Inr (RBool (is_active_extractive e clk s uid)), s)"
| "exec e clk s (Ingest uid payload ex rs) = returning RIngest (ingest e clk s uid payload ex rs)"
| "exec e clk s (Record_derivative aid uid) = (Inr RNone, record_derivative s aid uid)"
| "exec e clk s (Transition_artifact_state aid new_state) =
     returning (\<lambda>_. RNone) (transition_artifact_state s aid new_state)"
| "exec e clk s (Log_reuse aid d) = returning (\<lambda>_. RNone) (log_reuse clk s aid d)"
| "exec e clk s (Audit rd) =
     (case audit e rd s of Inl err \<Rightarrow> Inl err | Inr rep \<Rightarrow> Inr (RReport rep), s)"
| "exec e clk s (Caller_sets r l) = (Inr RNone, s\<lparr>caller_lists := (caller_lists s)(r := l)\<rparr>)"

fun run :: "env \<Rightarrow> store \<Rightarrow> (clock \<times> call) list \<Rightarrow> store" where
  "run e s [] = s"
| "run e s ((clk, c) # cs) = run e (snd (exec e clk s c)) cs"

text \<open>The artifact ids that the admitted extractive ingestions of a run returned.\<close>

fun created_artifacts :: "env \<Rightarrow> store \<Rightarrow> (clock \<times> call) list \<Rightarrow> artifact_id set" where
  "created_artifacts e s [] = {}"
| "created_artifacts e s ((clk, c) # cs) =
     (case fst (exec e clk s c) of
        Inr (RIngest r) \<Rightarrow> (case result_artifact_id r of Some aid \<Rightarrow> {aid} | None \<Rightarrow> {})
      | _ \<Rightarrow> {})
     \<union> created_artifacts e (snd (exec e clk s c)) cs"

text \<open>The same ids as a list, one entry per admitted extractive ingestion, in order.\<close>

fun created_ids :: "env \<Rightarrow> store \<Rightarrow> (clock \<times> call) list \<Rightarrow> artifact_id list" where
  "created_ids e s [] = []"
| "created_ids e s ((clk, c) # cs) =
     (case fst (exec e clk s c) of
        Inr (RIngest r) \<Rightarrow> (case result_artifact_id r of Some aid \<Rightarrow> [aid] | None \<Rightarrow> [])
      | _ \<Rightarrow> [])
     @ created_ids e (snd (exec e clk s c)) cs"

text \<open>The number of admitted extractive ingestions of a run.\<close>

fun admitted_extractive :: "env \<Rightarrow> store \<Rightarrow> (clock \<times> call) list \<Rightarrow> nat" where
  "admitted_extractive e s [] = 0"
| "admitted_extractive e s ((clk, c) # cs) =
     (case fst (exec e clk s c) of
        Inr (RIngest r) \<Rightarrow> (case result_artifact_id r of Some aid \<Rightarrow> 1 | None \<Rightarrow> 0)
      | _ \<Rightarrow> 0)
     + admitted_extractive e (snd (exec e clk s c)) cs"

text \<open>The artifacts that a run moved into \<^verbatim>\<open>published\<close>, one entry per successful transition.\<close>

fun published_events :: "env \<Rightarrow> store \<Rightarrow> (clock \<times> call) list \<Rightarrow> artifact_id list" where
  "published_events e s [] = []"
| "published_events e s ((clk, c) # cs) =
     (case c of
        Transition_artifact_state aid new_state \<Rightarrow>
          (if new_state = ''published'' \<and> fst (transition_artifact_state s aid new_state) = Inr ()
           then [aid] else [])
      | _ \<Rightarrow> [])
     @ published_events e (snd (exec e clk s c)) cs"

text \<open>
  Stand-ins for the runtime's functions, to run the model on concrete inputs. A text is
  written as its UTF-8 bytes, a lone surrogate as the three bytes \<open>ED A0..BF 80..BF\<close> of
  its generalized form; the encoder refuses a text with such a byte pair and returns every
  other text as it is. The digest of the bytes is the bytes, \<^verbatim>\<open>repr\<close> puts a text in single
  quotes, the hash of a text is its length, and the one date the parser knows is 2024-01-01
  (ordinal 738886).
\<close>

fun has_surrogate :: "string \<Rightarrow> bool" where
  "has_surrogate (a # b # xs) =
     ((a = CHR 0xED \<and> digit7 b \<and> \<not> digit6 b \<and> digit5 b) \<or> has_surrogate (b # xs))"
| "has_surrogate _ = False"

definition stub_env :: env where
  "stub_env =
     \<lparr>encode_utf8 = (\<lambda>x. if has_surrogate x then None else Some x),
      sha256_hexdigest = (\<lambda>x. x),
      repr_str = (\<lambda>x. [CHR 0x27] @ x @ [CHR 0x27]),
      py_hash = (\<lambda>x. int (length x)),
      fromisoformat_date = (\<lambda>x. if x = ''2024-01-01'' then Some 738886 else None)\<rparr>"

definition stub_clock :: clock where
  "stub_clock =
     \<lparr>today = 738887, utcnow_iso = ''2024-01-02T00:00:00'',
      utcnow_str = ''2024-01-02 00:00:00''\<rparr>"

section \<open>Notions used by the properties\<close>

text \<open>
  The user's current scope set, \<^verbatim>\<open>set(self.consent[user_id].get("scope", []))\<close>; a user
  without a consent entry has granted nothing.
\<close>

definition scope_set :: "store \<Rightarrow> user_id \<Rightarrow> string set" where
  "scope_set s uid =
     (case consent s uid of None \<Rightarrow> {} | Some c \<Rightarrow> set (scope_list (caller_lists s) c))"

text \<open>
  The receipt record and the anchor entry that \<^verbatim>\<open>_generate_consent_receipt\<close> builds from
  the digest \<open>r\<close> and the consent state \<open>c\<close>, and the store in which \<^verbatim>\<open>set_consent\<close> and
  \<^verbatim>\<open>revoke_consent\<close> call it: the user registered and the consent state assigned.
\<close>

definition issued :: "clock \<Rightarrow> string \<Rightarrow> consent_state \<Rightarrow> receipt_record" where
  "issued clk r c = \<lparr>timestamp = utcnow_iso clk, receipt = r, snapshot = c\<rparr>"

definition anchored :: "clock \<Rightarrow> string \<Rightarrow> anchor_entry" where
  "anchored clk r = \<lparr>anchor_receipt = r, anchor_timestamp = utcnow_iso clk\<rparr>"

definition assigned :: "store \<Rightarrow> user_id \<Rightarrow> consent_state \<Rightarrow> store" where
  "assigned s uid c =
     s\<lparr>known_users := insert uid (known_users s),
       consent := (consent s)(uid \<mapsto> c),
       receipts := (receipts s)(uid \<mapsto> get_consent_history s uid)\<rparr>"

text \<open>
  What \<^verbatim>\<open>set_consent\<close> and \<^verbatim>\<open>revoke_consent\<close> do once the new consent state \<open>c\<close> of the
  user is fixed: if the text to be hashed does not encode, \<^verbatim>\<open>UnicodeEncodeError\<close> in the
  store where the consent state is already assigned; otherwise the receipt, one more record
  in the history of the user and one more entry in the anchor.
\<close>

definition issue ::
  "env \<Rightarrow> clock \<Rightarrow> store \<Rightarrow> user_id \<Rightarrow> consent_state \<Rightarrow> (error + string) \<times> store" where
  "issue e clk s uid c =
     (case receipt_digest e (caller_lists s) uid c of
        None \<Rightarrow> (Inl UnicodeEncodeError, assigned s uid c)
      | Some r \<Rightarrow>
          (Inr r,
           (assigned s uid c)
             \<lparr>receipts := (receipts s)(uid \<mapsto> get_consent_history s uid @ [issued clk r c]),
              receipt_anchor := receipt_anchor s @ [anchored clk r]\<rparr>))"

text \<open>
  The consent state that \<^verbatim>\<open>revoke_consent\<close> leaves for a user.
\<close>

definition revoked :: "store \<Rightarrow> user_id \<Rightarrow> consent_state" where
  "revoked s uid =
     (case consent s uid of None \<Rightarrow> default_consent | Some c \<Rightarrow> c\<lparr>extractive := False\<rparr>)"

text \<open>
  The artifact id that \<^verbatim>\<open>ingest\<close> computes, and whether the enforcement of \<^verbatim>\<open>ingest\<close>
  lets the call through.
\<close>

definition new_artifact_id :: "env \<Rightarrow> clock \<Rightarrow> string \<Rightarrow> artifact_id" where
  "new_artifact_id e clk payload = ''artifact_'' @ str_int (py_hash e (payload @ utcnow_str clk))"

definition admits :: "env \<Rightarrow> clock \<Rightarrow> store \<Rightarrow> user_id \<Rightarrow> bool \<Rightarrow> string list option \<Rightarrow> bool" where
  "admits e clk s uid ex rs \<longleftrightarrow> ingest_enforce e clk (register_user s uid) uid ex (given rs) = None"

text \<open>
  The lifecycle table as the specification words it: generated to used or archived, used to
  published or archived, published to archived, archived to nothing.
\<close>

definition lifecycle_table :: "string \<Rightarrow> string set" where
  "lifecycle_table st =
     (if st = ''generated'' then {''used'', ''archived''}
      else if st = ''used'' then {''published'', ''archived''}
      else if st = ''published'' then {''archived''}
      else {})"

text \<open>The artifacts that are published or archived.\<close>

definition settled :: "store \<Rightarrow> artifact_id set" where
  "settled s =
     {aid. artifact_state s aid = Some ''published'' \<or> artifact_state s aid = Some ''archived''}"

text \<open>
  The three registries agree: the users with a consent entry and the users with a receipt
  history are the known users.
\<close>

definition registry_consistent :: "store \<Rightarrow> bool" where
  "registry_consistent s \<longleftrightarrow>
     dom (consent s) = known_users s \<and> dom (receipts s) = known_users s"

text \<open>
  \<^verbatim>\<open>sum(len(v) for v in self.receipts.values())\<close>, and the anchor holding one entry per
  receipt of a finite ledger.
\<close>

definition receipts_total :: "store \<Rightarrow> nat" where
  "receipts_total s = (\<Sum>uid \<in> dom (receipts s). length (get_consent_history s uid))"

definition anchor_balanced :: "store \<Rightarrow> bool" where
  "anchor_balanced s \<longleftrightarrow>
     finite (dom (receipts s)) \<and> length (receipt_anchor s) = receipts_total s"

text \<open>
  Stores and a run for concrete checks: consent that expired yesterday, consent whose
  expiry is not a date, the clock of the expiry day itself, consent without expiry, and a
  run of three admitted extractive ingestions (artifacts 20, 21 and 22) of which the first
  two are published and the first is then archived. In each, list 0 of the caller is the
  scope \<^verbatim>\<open>["research"]\<close>.
\<close>

definition expired_store :: store where
  "expired_store =
     run stub_env init_store
       [(stub_clock, Caller_sets 0 [''research'']),
        (stub_clock, Set_consent ''u1'' True (Some ''2024-01-01T10:00:00'') (Some 0))]"

definition malformed_store :: store where
  "malformed_store =
     snd (set_consent stub_env stub_clock init_store ''u1'' True (Some ''soon'') None)"

definition early_clock :: clock where
  "early_clock = stub_clock\<lparr>today := 738886\<rparr>"

definition consenting_calls :: "(clock \<times> call) list" where
  "consenting_calls =
     [(stub_clock, Caller_sets 0 [''research'']),
      (stub_clock, Set_consent ''u1'' True None (Some 0))]"

definition consenting_store :: store where
  "consenting_store = run stub_env init_store consenting_calls"

text \<open>The readings of an audit during which the clock stands still.\<close>

definition stub_readings :: readings where
  "stub_readings = (\<lambda>pass uid. stub_clock)"

definition demo_calls :: "(clock \<times> call) list" where
  "demo_calls =
     [(stub_clock, Caller_sets 0 [''research'']),
      (stub_clock, Set_consent ''u1'' True None (Some 0)),
      (stub_clock, Ingest ''u1'' ''x'' True None),
      (stub_clock, Ingest ''u1'' ''xx'' True None),
      (stub_clock, Ingest ''u1'' ''xxx'' True None),
      (stub_clock, Transition_artifact_state ''artifact_20'' ''used''),
      (stub_clock, Transition_artifact_state ''artifact_20'' ''published''),
      (stub_clock, Transition_artifact_state ''artifact_21'' ''used''),
      (stub_clock, Transition_artifact_state ''artifact_21'' ''published''),
      (stub_clock, Transition_artifact_state ''artifact_20'' ''archived'')]"

text \<open>
  A user id with a lone surrogate, \<^verbatim>\<open>'u\\ud800'\<close>, as \<^verbatim>\<open>json.loads\<close> returns it for the text
  \<^verbatim>\<open>"u\\ud800"\<close>.
\<close>

definition surrogate_id :: user_id where
  "surrogate_id = ''u'' @ [CHR 0xED, CHR 0xA0, CHR 0x80]"

text \<open>
  A run in which the caller appends \<^verbatim>\<open>"ads"\<close> to the list it had passed as scope, after
  the receipt was issued.
\<close>

definition appended_store :: store where
  "appended_store =
     run stub_env init_store
       (consenting_calls @ [(stub_clock, Caller_sets 0 [''research'', ''ads''])])"

text \<open>
  A run in which the second ingestion has the payload and the clock reading of the first
  and so returns the id of the first, whose artifact is published by then: three admitted
  extractive ingestions, artifacts 20 and 21 published, artifact 20 archived at the end.
\<close>

definition collision_calls :: "(clock \<times> call) list" where
  "collision_calls =
     [(stub_clock, Set_consent ''u1'' True None None),
      (stub_clock, Ingest ''u1'' ''x'' True None),
      (stub_clock, Transition_artifact_state ''artifact_20'' ''used''),
      (stub_clock, Transition_artifact_state ''artifact_20'' ''published''),
      (stub_clock, Ingest ''u1'' ''x'' True None),
      (stub_clock, Transition_artifact_state ''artifact_20'' ''used''),
      (stub_clock, Transition_artifact_state ''artifact_20'' ''published''),
      (stub_clock, Ingest ''u1'' ''xx'' True None),
      (stub_clock, Transition_artifact_state ''artifact_21'' ''used''),
      (stub_clock, Transition_artifact_state ''artifact_21'' ''published''),
      (stub_clock, Transition_artifact_state ''artifact_20'' ''archived'')]"

section \<open>The methods, in closed form\<close>

lemma register_user_fields:
  "known_users (register_user s uid) = insert uid (known_users s)"
  "consent (register_user s uid) =
     (if consent s uid = None then (consent s)(uid \<mapsto> default_consent) else consent s)"
  "receipts (register_user s uid) =
     (if receipts s uid = None then (receipts s)(uid \<mapsto> []) else receipts s)"
  "receipt_anchor (register_user s uid) = receipt_anchor s"
  "attribution (register_user s uid) = attribution s"
  "artifact_state (register_user s uid) = artifact_state s"
  "reuse_log (register_user s uid) = reuse_log s"
  "extractive_ingests (register_user s uid) = extractive_ingests s"
  "published_count (register_user s uid) = published_count s"
  "caller_lists (register_user s uid) = caller_lists s"
  by (auto simp: register_user_def Let_def)

lemma register_user_dom:
  "dom (consent (register_user s uid)) = insert uid (dom (consent s))"
  "dom (receipts (register_user s uid)) = insert uid (dom (receipts s))"
  by (auto simp: register_user_fields)

lemma is_active_register:
  "is_active_extractive e clk (register_user s uid) u = is_active_extractive e clk s u"
  by (simp add: is_active_extractive_def register_user_fields default_consent_def)

lemma is_active_consent:
  "is_active_extractive e clk s uid \<Longrightarrow> \<exists>c. consent s uid = Some c \<and> extractive c"
  by (auto simp: is_active_extractive_def split: option.splits if_splits)


lemma register_assigned:
  "(register_user s uid)\<lparr>consent := (consent (register_user s uid))(uid \<mapsto> c)\<rparr> = assigned s uid c"
  by (cases "receipts s uid")
     (auto simp: register_user_def assigned_def get_consent_history_def Let_def fun_upd_idem)

lemma generate_assigned:
  "generate_consent_receipt e clk (assigned s uid c) uid = issue e clk s uid c"
  by (simp add: generate_consent_receipt_def issue_def assigned_def issued_def anchored_def
        Let_def split: option.splits)

lemma set_consent_eq:
  "set_consent e clk s uid ex x sc =
     issue e clk s uid \<lparr>extractive = ex, expires = x, scope = scope_arg sc\<rparr>"
  by (simp add: set_consent_def Let_def register_assigned generate_assigned)

lemma revoke_consent_eq: "revoke_consent e clk s uid = issue e clk s uid (revoked s uid)"
proof (cases "consent s uid")
  case None
  then have "consent (register_user s uid) uid = Some default_consent"
    by (simp add: register_user_fields)
  moreover have "default_consent\<lparr>extractive := False\<rparr> = default_consent"
    by (simp add: default_consent_def)
  ultimately show ?thesis
    using None
    by (simp add: revoke_consent_def Let_def register_assigned generate_assigned revoked_def)
next
  case (Some c)
  then have "consent (register_user s uid) uid = Some c"
    by (simp add: register_user_fields)
  then show ?thesis
    using Some
    by (simp add: revoke_consent_def Let_def register_assigned generate_assigned revoked_def)
qed

lemma issue_fst:
  "fst (issue e clk s uid c) =
     (case receipt_digest e (caller_lists s) uid c of
        None \<Rightarrow> Inl UnicodeEncodeError | Some r \<Rightarrow> Inr r)"
  by (simp add: issue_def split: option.splits)

lemma issue_fields:
  "known_users (snd (issue e clk s uid c)) = insert uid (known_users s)"
  "consent (snd (issue e clk s uid c)) = (consent s)(uid \<mapsto> c)"
  "dom (receipts (snd (issue e clk s uid c))) = insert uid (dom (receipts s))"
  "receipt_anchor (snd (issue e clk s uid c)) =
     receipt_anchor s
       @ (case receipt_digest e (caller_lists s) uid c of
            None \<Rightarrow> [] | Some r \<Rightarrow> [anchored clk r])"
  "attribution (snd (issue e clk s uid c)) = attribution s"
  "artifact_state (snd (issue e clk s uid c)) = artifact_state s"
  "reuse_log (snd (issue e clk s uid c)) = reuse_log s"
  "extractive_ingests (snd (issue e clk s uid c)) = extractive_ingests s"
  "published_count (snd (issue e clk s uid c)) = published_count s"
  "caller_lists (snd (issue e clk s uid c)) = caller_lists s"
  by (auto simp: issue_def assigned_def split: option.splits)

lemma issue_history:
  "get_consent_history (snd (issue e clk s uid c)) u =
     (if u = uid
      then get_consent_history s uid
             @ (case receipt_digest e (caller_lists s) uid c of
                  None \<Rightarrow> [] | Some r \<Rightarrow> [issued clk r c])
      else get_consent_history s u)"
  by (simp add: issue_def assigned_def get_consent_history_def split: option.splits)

lemma issue_receipts:
  "receipts (snd (issue e clk s uid c)) =
     (receipts s)(uid \<mapsto> get_consent_history (snd (issue e clk s uid c)) uid)"
  by (simp add: issue_def assigned_def get_consent_history_def split: option.splits)

lemma ingest_enforce_cases:
  "ingest_enforce e clk s uid ex rq =
     (if (ex \<or> rq \<noteq> []) \<and> \<not> is_active_extractive e clk s uid
      then Some (PermissionError ConsentRequired)
      else if rq \<noteq> [] \<and> \<not> set rq \<subseteq> scope_set s uid
      then Some (PermissionError ScopeNotGranted) else None)"
  by (auto simp: ingest_enforce_def scope_set_def dest: is_active_consent split: option.splits)

lemma ingest_fst:
  "fst (ingest e clk s uid payload ex rs) =
     (case ingest_enforce e clk (register_user s uid) uid ex (given rs) of
        Some err \<Rightarrow> Inl err
      | None \<Rightarrow> Inr \<lparr>status = ''Processed'',
           result_artifact_id =
             (if ex then Some (''artifact_'' @ str_int (py_hash e (payload @ utcnow_str clk)))
              else None)\<rparr>)"
  by (simp add: ingest_def Let_def split: option.splits)

lemma ingest_raises_snd:
  "fst (ingest e clk s uid payload ex rs) = Inl err \<Longrightarrow>
   snd (ingest e clk s uid payload ex rs) = register_user s uid"
  by (auto simp: ingest_def Let_def split: option.splits if_splits)

lemma record_derivative_fields:
  "attribution (record_derivative s aid uid) =
     (attribution s)(aid \<mapsto> (case attribution s aid of
                              None \<Rightarrow> [uid]
                            | Some l \<Rightarrow> if uid \<in> set l then l else l @ [uid]))"
  "known_users (record_derivative s aid uid) = known_users s"
  "consent (record_derivative s aid uid) = consent s"
  "receipts (record_derivative s aid uid) = receipts s"
  "receipt_anchor (record_derivative s aid uid) = receipt_anchor s"
  "artifact_state (record_derivative s aid uid) = artifact_state s"
  "reuse_log (record_derivative s aid uid) = reuse_log s"
  "extractive_ingests (record_derivative s aid uid) = extractive_ingests s"
  "published_count (record_derivative s aid uid) = published_count s"
  "caller_lists (record_derivative s aid uid) = caller_lists s"
  by (auto simp: record_derivative_def Let_def split: option.splits)

lemma ingest_snd:
  "snd (ingest e clk s uid payload ex rs) =
     (if admits e clk s uid ex rs \<and> ex
      then (record_derivative
              ((register_user s uid)\<lparr>extractive_ingests := extractive_ingests s + 1\<rparr>)
              (new_artifact_id e clk payload) uid)
           \<lparr>artifact_state := (artifact_state s)(new_artifact_id e clk payload \<mapsto> ''generated'')\<rparr>
      else register_user s uid)"
proof (cases "ingest_enforce e clk (register_user s uid) uid ex (given rs)")
  case None
  then show ?thesis
    by (cases ex)
       (simp_all add: ingest_def Let_def admits_def new_artifact_id_def
          record_derivative_fields register_user_fields)
next
  case (Some err)
  then show ?thesis
    by (simp add: ingest_def Let_def admits_def)
qed

lemma ingest_fields:
  "known_users (snd (ingest e clk s uid payload ex rs)) = insert uid (known_users s)"
  "consent (snd (ingest e clk s uid payload ex rs)) = consent (register_user s uid)"
  "receipts (snd (ingest e clk s uid payload ex rs)) = receipts (register_user s uid)"
  "receipt_anchor (snd (ingest e clk s uid payload ex rs)) = receipt_anchor s"
  "reuse_log (snd (ingest e clk s uid payload ex rs)) = reuse_log s"
  "published_count (snd (ingest e clk s uid payload ex rs)) = published_count s"
  "caller_lists (snd (ingest e clk s uid payload ex rs)) = caller_lists s"
  "extractive_ingests (snd (ingest e clk s uid payload ex rs)) =
     (if admits e clk s uid ex rs \<and> ex then extractive_ingests s + 1 else extractive_ingests s)"
  "artifact_state (snd (ingest e clk s uid payload ex rs)) =
     (if admits e clk s uid ex rs \<and> ex
      then (artifact_state s)(new_artifact_id e clk payload \<mapsto> ''generated'')
      else artifact_state s)"
  by (auto simp: ingest_snd record_derivative_fields register_user_fields)

lemma ingest_fst_admits:
  "fst (ingest e clk s uid payload ex rs) =
     (if admits e clk s uid ex rs
      then Inr \<lparr>status = ''Processed'',
                result_artifact_id = (if ex then Some (new_artifact_id e clk payload) else None)\<rparr>
      else Inl (the (ingest_enforce e clk (register_user s uid) uid ex (given rs))))"
  by (auto simp: ingest_fst admits_def new_artifact_id_def split: option.splits)

lemma valid_transitions_table:
  "set (case valid_transitions cur of None \<Rightarrow> [] | Some l \<Rightarrow> l) = lifecycle_table cur"
  by (auto simp: valid_transitions_def lifecycle_table_def)

lemma transition_cases:
  "transition_artifact_state s aid ns =
     (case artifact_state s aid of
        None \<Rightarrow> (Inl (ValueError (ArtifactNotFound aid)), s)
      | Some cur \<Rightarrow>
          if ns \<notin> lifecycle_table cur
          then (Inl (ValueError (InvalidTransition cur ns)), s)
          else (Inr (), s\<lparr>published_count := (if ns = ''published'' then published_count s + 1
                                                else published_count s),
                          artifact_state := (artifact_state s)(aid \<mapsto> ns)\<rparr>))"
  unfolding transition_artifact_state_def valid_transitions_table
  by (simp add: Let_def split: option.splits)

lemma transition_ledger:
  "known_users (snd (transition_artifact_state s aid ns)) = known_users s"
  "consent (snd (transition_artifact_state s aid ns)) = consent s"
  "receipts (snd (transition_artifact_state s aid ns)) = receipts s"
  "receipt_anchor (snd (transition_artifact_state s aid ns)) = receipt_anchor s"
  "extractive_ingests (snd (transition_artifact_state s aid ns)) = extractive_ingests s"
  "caller_lists (snd (transition_artifact_state s aid ns)) = caller_lists s"
  "dom (artifact_state (snd (transition_artifact_state s aid ns))) = dom (artifact_state s)"
  by (auto simp: transition_cases split: option.splits)

lemma transition_published_count:
  "published_count (snd (transition_artifact_state s aid ns)) =
     published_count s
       + (if ns = ''published'' \<and> fst (transition_artifact_state s aid ns) = Inr () then 1 else 0)"
  by (simp add: transition_cases split: option.splits)

lemma log_reuse_eq:
  "log_reuse clk s aid d =
     (Inr (),
      s\<lparr>artifact_state :=
           (if artifact_state s aid = Some ''generated'' \<or> artifact_state s aid = Some ''used''
            then (artifact_state s)(aid \<mapsto> ''used'') else artifact_state s),
        reuse_log := reuse_log s
           @ [\<lparr>artifact_id = aid, disclosed = d, reuse_timestamp = utcnow_iso clk\<rparr>]\<rparr>)"
  by (auto simp: log_reuse_def Let_def split: option.splits)

lemma snd_returning: "snd (returning f p) = snd p"
  by (simp add: returning_def)

lemma fst_returning:
  "fst (returning f p) = (case fst p of Inl err \<Rightarrow> Inl err | Inr v \<Rightarrow> Inr (f v))"
  by (simp add: returning_def)

section \<open>The audit report\<close>

lemma active_users_consent: "uid \<in> active_users e rd s \<Longrightarrow> consent s uid \<noteq> None"
  by (auto simp: active_users_def dest: is_active_consent)

lemma audit_returns: "\<exists>rep. audit e rd s = Inr rep"
proof -
  have "\<not> (\<exists>uid \<in> active_users e (rd 1) s \<union> active_users e (rd 2) s. consent s uid = None)"
    using active_users_consent by blast
  then show ?thesis
    by (simp add: audit_def Let_def)
qed

lemma audit_fields:
  assumes "audit e rd s = Inr rep"
  shows "total_users rep = card (known_users s)"
    and "anchored_receipts rep = length (receipt_anchor s)"
    and "total_receipts_issued rep = receipts_total s"
    and "RIM_1 rep = (if card (known_users s) > 0
           then round4 (ratio (card (active_users e (rd 0) s)) (card (known_users s))) else 0)"
    and "RIM_6 rep = (if extractive_ingests s > 0
           then round4 (ratio (published_count s) (extractive_ingests s)) else 0)"
    and "ever_published_artifacts rep = published_count s"
    and "report_extractive_ingests rep = extractive_ingests s"
  using assms
  by (auto simp: audit_def Let_def receipts_total_def split: if_splits)

section \<open>Runs\<close>

lemma run_append: "run e s (cs @ cs') = run e (run e s cs) cs'"
  by (induction cs arbitrary: s) auto

lemma exec_registry: "registry_consistent s \<Longrightarrow> registry_consistent (snd (exec e clk s c))"
  by (cases c)
     (auto simp: registry_consistent_def snd_returning register_user_fields(1)
        register_user_dom set_consent_eq revoke_consent_eq issue_fields ingest_fields
        record_derivative_fields transition_ledger log_reuse_eq)

lemma run_registry: "registry_consistent s \<Longrightarrow> registry_consistent (run e s cs)"
  by (induction cs arbitrary: s) (auto simp: exec_registry)

lemma init_registry: "registry_consistent init_store"
  by (simp add: registry_consistent_def init_store_def)

lemma finite_users_exec: "finite (known_users s) \<Longrightarrow> finite (known_users (snd (exec e clk s c)))"
  by (cases c)
     (simp_all add: snd_returning register_user_fields set_consent_eq revoke_consent_eq
        issue_fields ingest_fields record_derivative_fields transition_ledger log_reuse_eq)

lemma finite_users_run: "finite (known_users s) \<Longrightarrow> finite (known_users (run e s cs))"
  by (induction cs arbitrary: s) (auto simp: finite_users_exec)

lemma receipts_total_upd:
  assumes "finite (dom m)"
  shows "(\<Sum>u \<in> dom (m(uid \<mapsto> h)). length (case (m(uid \<mapsto> h)) u of None \<Rightarrow> [] | Some x \<Rightarrow> x))
       + length (case m uid of None \<Rightarrow> [] | Some x \<Rightarrow> x)
     = (\<Sum>u \<in> dom m. length (case m u of None \<Rightarrow> [] | Some x \<Rightarrow> x)) + length h"
proof -
  let ?g = "\<lambda>u. length (case m u of None \<Rightarrow> [] | Some x \<Rightarrow> x)"
  let ?g' = "\<lambda>u. length (case (m(uid \<mapsto> h)) u of None \<Rightarrow> [] | Some x \<Rightarrow> x)"
  have fin: "finite (dom m - {uid})" using assms by simp
  have a: "sum ?g' (dom (m(uid \<mapsto> h))) = sum ?g' (insert uid (dom m - {uid}))"
    by (rule arg_cong [where f = "sum ?g'"]) auto
  have b: "sum ?g' (insert uid (dom m - {uid})) = ?g' uid + sum ?g' (dom m - {uid})"
    using fin by (subst sum.insert) auto
  have c: "sum ?g' (dom m - {uid}) = sum ?g (dom m - {uid})"
    by (rule sum.cong) auto
  have d: "?g' uid = length h"
    by simp
  from a b c d have 1: "sum ?g' (dom (m(uid \<mapsto> h))) = length h + sum ?g (dom m - {uid})"
    by metis
  have 2: "sum ?g (dom m) = ?g uid + sum ?g (dom m - {uid})"
  proof (cases "uid \<in> dom m")
    case True
    then show ?thesis using assms by (simp add: sum.remove)
  next
    case False
    then have "dom m - {uid} = dom m" "m uid = None" by auto
    then show ?thesis by simp
  qed
  from 1 2 show ?thesis by simp
qed

lemma receipts_total_map:
  "receipts_total s = (\<Sum>u \<in> dom (receipts s). length (case receipts s u of None \<Rightarrow> [] | Some x \<Rightarrow> x))"
  by (simp add: receipts_total_def get_consent_history_def)

lemma receipts_total_append:
  assumes "finite (dom (receipts s))"
    and "receipts s' = (receipts s)(uid \<mapsto> get_consent_history s uid @ ys)"
  shows "receipts_total s' = receipts_total s + length ys"
  using receipts_total_upd [OF assms(1), of uid "get_consent_history s uid @ ys"] assms(2)
  by (simp add: receipts_total_map get_consent_history_def)

lemma receipts_total_register:
  assumes "finite (dom (receipts s))"
  shows "receipts_total (register_user s uid) = receipts_total s"
proof (cases "receipts s uid")
  case None
  with receipts_total_upd [OF assms, of uid "[]"] show ?thesis
    by (simp add: receipts_total_map register_user_fields)
next
  case (Some h)
  then show ?thesis
    by (simp add: receipts_total_map register_user_fields)
qed

lemma receipts_total_cong:
  "receipts s' = receipts s \<Longrightarrow> receipts_total s' = receipts_total s"
  by (simp add: receipts_total_map)

lemma issue_anchor_balanced:
  assumes "anchor_balanced s"
  shows "anchor_balanced (snd (issue e clk s uid c))"
proof -
  let ?ys = "case receipt_digest e (caller_lists s) uid c of
               None \<Rightarrow> [] | Some r \<Rightarrow> [issued clk r c]"
  have fin: "finite (dom (receipts s))"
    using assms by (simp add: anchor_balanced_def)
  have "receipts (snd (issue e clk s uid c)) = (receipts s)(uid \<mapsto> get_consent_history s uid @ ?ys)"
    by (subst issue_receipts) (simp add: issue_history)
  with fin have "receipts_total (snd (issue e clk s uid c)) = receipts_total s + length ?ys"
    by (rule receipts_total_append)
  moreover have "length (receipt_anchor (snd (issue e clk s uid c)))
      = length (receipt_anchor s) + length ?ys"
    by (simp add: issue_fields split: option.splits)
  ultimately show ?thesis
    using assms by (simp add: anchor_balanced_def issue_fields)
qed

lemma exec_anchor_balanced: "anchor_balanced s \<Longrightarrow> anchor_balanced (snd (exec e clk s c))"
proof (cases c)
  case (Register_user uid)
  assume "anchor_balanced s"
  then show ?thesis using Register_user
    by (simp add: anchor_balanced_def receipts_total_register register_user_fields(4)
        register_user_dom)
next
  case (Set_consent uid ex x sc)
  assume "anchor_balanced s"
  then show ?thesis using Set_consent
    by (simp add: snd_returning set_consent_eq issue_anchor_balanced)
next
  case (Revoke_consent uid)
  assume "anchor_balanced s"
  then show ?thesis using Revoke_consent
    by (simp add: snd_returning revoke_consent_eq issue_anchor_balanced)
next
  case (Ingest uid payload ex rs)
  assume a: "anchor_balanced s"
  have "receipts_total (snd (ingest e clk s uid payload ex rs)) = receipts_total (register_user s uid)"
    by (rule receipts_total_cong) (simp add: ingest_fields)
  with a show ?thesis using Ingest
    by (simp add: anchor_balanced_def snd_returning ingest_fields receipts_total_register
        register_user_dom)
next
  case (Record_derivative aid uid)
  assume a: "anchor_balanced s"
  have "receipts_total (record_derivative s aid uid) = receipts_total s"
    by (rule receipts_total_cong) (simp add: record_derivative_fields)
  with a show ?thesis using Record_derivative
    by (simp add: anchor_balanced_def record_derivative_fields)
next
  case (Transition_artifact_state aid ns)
  assume a: "anchor_balanced s"
  have "receipts_total (snd (transition_artifact_state s aid ns)) = receipts_total s"
    by (rule receipts_total_cong) (simp add: transition_ledger)
  with a show ?thesis using Transition_artifact_state
    by (simp add: anchor_balanced_def snd_returning transition_ledger)
next
  case (Log_reuse aid d)
  assume a: "anchor_balanced s"
  have "receipts_total (snd (log_reuse clk s aid d)) = receipts_total s"
    by (rule receipts_total_cong) (simp add: log_reuse_eq)
  with a show ?thesis using Log_reuse
    by (simp add: anchor_balanced_def snd_returning log_reuse_eq)
next
  case (Caller_sets r l)
  assume a: "anchor_balanced s"
  have "receipts_total (s\<lparr>caller_lists := (caller_lists s)(r := l)\<rparr>) = receipts_total s"
    by (rule receipts_total_cong) simp
  with a show ?thesis using Caller_sets
    by (simp add: anchor_balanced_def)
qed simp_all

lemma run_anchor_balanced: "anchor_balanced s \<Longrightarrow> anchor_balanced (run e s cs)"
  by (induction cs arbitrary: s) (auto simp: exec_anchor_balanced)

lemma init_anchor_balanced: "anchor_balanced init_store"
  by (simp add: anchor_balanced_def init_store_def receipts_total_def)

lemma exec_artifact_dom:
  "dom (artifact_state (snd (exec e clk s c))) =
     dom (artifact_state s) \<union>
     (case fst (exec e clk s c) of
        Inr (RIngest r) \<Rightarrow> (case result_artifact_id r of Some aid \<Rightarrow> {aid} | None \<Rightarrow> {})
      | _ \<Rightarrow> {})"
proof (cases c)
  case (Ingest uid payload ex rs)
  then show ?thesis
    by (auto simp: snd_returning fst_returning ingest_fields ingest_fst_admits)
next
  case (Set_consent uid ex x sc)
  then show ?thesis
    by (simp add: snd_returning fst_returning set_consent_eq issue_fields issue_fst
        split: option.splits)
next
  case (Revoke_consent uid)
  then show ?thesis
    by (simp add: snd_returning fst_returning revoke_consent_eq issue_fields issue_fst
        split: option.splits)
next
  case (Transition_artifact_state aid ns)
  then show ?thesis
    by (simp add: snd_returning fst_returning transition_ledger split: sum.splits)
next
  case (Log_reuse aid d)
  then show ?thesis
    by (auto simp: snd_returning fst_returning log_reuse_eq)
next
  case (Audit rd)
  then show ?thesis
    by (simp split: sum.splits)
qed (simp_all add: register_user_fields record_derivative_fields)

lemma run_artifact_dom:
  "dom (artifact_state (run e s cs)) = dom (artifact_state s) \<union> created_artifacts e s cs"
proof (induction cs arbitrary: s)
  case Nil
  then show ?case by simp
next
  case (Cons a cs)
  obtain clk c where a: "a = (clk, c)" by (cases a)
  show ?case
    unfolding a run.simps created_artifacts.simps Cons.IH exec_artifact_dom
    by (simp add: Un_assoc)
qed

lemma init_artifacts: "artifact_state init_store = Map.empty"
  by (simp add: init_store_def)

lemma exec_extractive_ingests:
  "extractive_ingests (snd (exec e clk s c)) =
     extractive_ingests s +
     (case fst (exec e clk s c) of
        Inr (RIngest r) \<Rightarrow> (case result_artifact_id r of Some aid \<Rightarrow> 1 | None \<Rightarrow> 0)
      | _ \<Rightarrow> 0)"
proof (cases c)
  case (Ingest uid payload ex rs)
  then show ?thesis
    by (auto simp: snd_returning fst_returning ingest_fields ingest_fst_admits)
next
  case (Set_consent uid ex x sc)
  then show ?thesis
    by (simp add: snd_returning fst_returning set_consent_eq issue_fields issue_fst
        split: option.splits)
next
  case (Revoke_consent uid)
  then show ?thesis
    by (simp add: snd_returning fst_returning revoke_consent_eq issue_fields issue_fst
        split: option.splits)
next
  case (Transition_artifact_state aid ns)
  then show ?thesis
    by (simp add: snd_returning fst_returning transition_ledger split: sum.splits)
next
  case (Log_reuse aid d)
  then show ?thesis
    by (simp add: snd_returning fst_returning log_reuse_eq)
next
  case (Audit rd)
  then show ?thesis
    by (simp split: sum.splits)
qed (simp_all add: register_user_fields record_derivative_fields)

lemma run_extractive_ingests:
  "extractive_ingests (run e s cs) = extractive_ingests s + admitted_extractive e s cs"
proof (induction cs arbitrary: s)
  case Nil
  then show ?case by simp
next
  case (Cons a cs)
  obtain clk c where a: "a = (clk, c)" by (cases a)
  show ?case
    unfolding a run.simps admitted_extractive.simps Cons.IH exec_extractive_ingests
    by simp
qed

lemma exec_published_count:
  "published_count (snd (exec e clk s c)) =
     published_count s +
     length (case c of
        Transition_artifact_state aid new_state \<Rightarrow>
          (if new_state = ''published'' \<and> fst (transition_artifact_state s aid new_state) = Inr ()
           then [aid] else [])
      | _ \<Rightarrow> [])"
  by (cases c)
     (auto simp: snd_returning register_user_fields set_consent_eq revoke_consent_eq issue_fields
        ingest_fields record_derivative_fields transition_published_count log_reuse_eq)

lemma run_published_count:
  "published_count (run e s cs) = published_count s + length (published_events e s cs)"
proof (induction cs arbitrary: s)
  case Nil
  then show ?case by simp
next
  case (Cons a cs)
  obtain clk c where a: "a = (clk, c)" by (cases a)
  show ?case
    unfolding a run.simps published_events.simps Cons.IH exec_published_count
    by simp
qed

lemma created_ids_set: "set (created_ids e s cs) = created_artifacts e s cs"
proof (induction cs arbitrary: s)
  case Nil
  then show ?case by simp
next
  case (Cons a cs)
  obtain clk c where a: "a = (clk, c)" by (cases a)
  show ?case
    unfolding a created_ids.simps created_artifacts.simps set_append Cons.IH
    by (simp split: sum.splits retval.splits option.splits)
qed

lemma created_ids_length: "length (created_ids e s cs) = admitted_extractive e s cs"
proof (induction cs arbitrary: s)
  case Nil
  then show ?case by simp
next
  case (Cons a cs)
  obtain clk c where a: "a = (clk, c)" by (cases a)
  show ?case
    unfolding a created_ids.simps admitted_extractive.simps length_append Cons.IH
    by (simp split: sum.splits retval.splits option.splits)
qed

text \<open>
  An artifact that is published or archived stays so under a call that creates no artifact
  with its id; a successful transition into \<^verbatim>\<open>published\<close> starts from an artifact that is
  neither.
\<close>

lemma exec_settled:
  assumes "(case fst (exec e clk s c) of
        Inr (RIngest r) \<Rightarrow> (case result_artifact_id r of Some aid \<Rightarrow> {aid} | None \<Rightarrow> {})
      | _ \<Rightarrow> {}) \<inter> dom (artifact_state s) = {}"
  shows "settled s \<subseteq> settled (snd (exec e clk s c))"
proof (cases c)
  case (Ingest uid payload ex rs)
  then show ?thesis
    using assms
    by (auto simp: settled_def snd_returning fst_returning ingest_fields ingest_fst_admits
        split: if_splits)
next
  case (Transition_artifact_state aid ns)
  then show ?thesis
    by (auto simp: settled_def snd_returning transition_cases lifecycle_table_def
        split: option.splits if_splits)
next
  case (Log_reuse aid d)
  then show ?thesis
    by (auto simp: settled_def snd_returning log_reuse_eq)
qed (simp_all add: settled_def snd_returning register_user_fields set_consent_eq
       revoke_consent_eq issue_fields record_derivative_fields)

lemma publish_settles:
  assumes "fst (transition_artifact_state s aid ''published'') = Inr ()"
  shows "aid \<notin> settled s"
    and "aid \<in> settled (snd (transition_artifact_state s aid ''published''))"
  using assms
  by (auto simp: settled_def transition_cases lifecycle_table_def split: option.splits if_splits)

lemma published_events_distinct:
  assumes "distinct (created_ids e s cs)"
    and "set (created_ids e s cs) \<inter> dom (artifact_state s) = {}"
  shows "distinct (published_events e s cs) \<and> set (published_events e s cs) \<inter> settled s = {}"
  using assms
proof (induction cs arbitrary: s)
  case Nil
  then show ?case by simp
next
  case (Cons a cs)
  obtain clk c where a: "a = (clk, c)" by (cases a)
  let ?s' = "snd (exec e clk s c)"
  let ?new = "case fst (exec e clk s c) of
        Inr (RIngest r) \<Rightarrow> (case result_artifact_id r of Some aid \<Rightarrow> [aid] | None \<Rightarrow> [])
      | _ \<Rightarrow> []"
  let ?newset = "case fst (exec e clk s c) of
        Inr (RIngest r) \<Rightarrow> (case result_artifact_id r of Some aid \<Rightarrow> {aid} | None \<Rightarrow> {})
      | _ \<Rightarrow> {}"
  let ?pub = "case c of
        Transition_artifact_state aid new_state \<Rightarrow>
          (if new_state = ''published'' \<and> fst (transition_artifact_state s aid new_state) = Inr ()
           then [aid] else [])
      | _ \<Rightarrow> []"
  have ids: "created_ids e s (a # cs) = ?new @ created_ids e ?s' cs"
    by (simp add: a)
  have pe: "published_events e s (a # cs) = ?pub @ published_events e ?s' cs"
    by (simp add: a)
  have newset: "set ?new = ?newset"
    by (simp split: sum.splits retval.splits option.splits)
  have d1: "distinct (created_ids e ?s' cs)"
    and d2: "set ?new \<inter> set (created_ids e ?s' cs) = {}"
    and d3: "set ?new \<inter> dom (artifact_state s) = {}"
    and d4: "set (created_ids e ?s' cs) \<inter> dom (artifact_state s) = {}"
    using Cons.prems unfolding ids by auto
  have "set (created_ids e ?s' cs) \<inter> dom (artifact_state ?s') = {}"
    unfolding exec_artifact_dom using d2 d4 newset by auto
  with d1 have ih: "distinct (published_events e ?s' cs)"
    "set (published_events e ?s' cs) \<inter> settled ?s' = {}"
    using Cons.IH [of ?s'] by blast+
  have mono: "settled s \<subseteq> settled ?s'"
    using d3 newset by (intro exec_settled) simp
  have pub: "distinct ?pub" "set ?pub \<inter> settled s = {}" "set ?pub \<subseteq> settled ?s'"
    by (cases c; auto simp: snd_returning dest: publish_settles)+
  have "distinct (?pub @ published_events e ?s' cs)"
    using pub ih by auto
  moreover have "set (?pub @ published_events e ?s' cs) \<inter> settled s = {}"
    using pub ih mono by auto
  ultimately show ?case
    unfolding pe by blast
qed

lemma published_events_distinct_init:
  "distinct (created_ids e init_store cs) \<Longrightarrow> distinct (published_events e init_store cs)"
  using published_events_distinct [of e init_store cs] by (simp add: init_artifacts)

section \<open>Concrete stores and the concrete runs\<close>

lemmas round4_eval = round4_def ratio_def round_half_even_def Let_def

lemma round4_two_thirds: "round4 (ratio 2 3) = 6667 / 10000"
  by (simp add: round4_def ratio_def round_half_even_def Let_def)

lemmas evals =
  returning_def set_consent_eq revoke_consent_eq issue_def assigned_def receipt_digest_def
  str_consent_def scope_list_def scope_arg_def
  ingest_snd ingest_fst_admits admits_def ingest_enforce_cases
  is_active_extractive_def scope_set_def register_user_def record_derivative_def
  transition_cases lifecycle_table_def new_artifact_id_def str_int_def digit_def
  stub_env_def stub_clock_def init_store_def given_def Let_def get_consent_history_def

lemma expired_store_consent:
  "consent expired_store ''u1'' =
     Some \<lparr>extractive = True, expires = Some ''2024-01-01T10:00:00'', scope = Passed 0\<rparr>"
  "caller_lists expired_store 0 = [''research'']"
  by (simp_all add: expired_store_def evals)

lemma malformed_store_consent:
  "consent malformed_store ''u1'' =
     Some \<lparr>extractive = True, expires = Some ''soon'', scope = Owned []\<rparr>"
  by (simp add: malformed_store_def evals)

lemma consenting_store_fields:
  "known_users consenting_store = {''u1''}"
  "consent consenting_store ''u1'' = Some \<lparr>extractive = True, expires = None, scope = Passed 0\<rparr>"
  "consent consenting_store ''u2'' = None"
  "receipts consenting_store ''u2'' = None"
  "caller_lists consenting_store 0 = [''research'']"
  by (simp_all add: consenting_store_def consenting_calls_def evals)

lemma consenting_denied:
  "fst (ingest stub_env stub_clock consenting_store ''u2'' ''x'' True None)
     = Inl (PermissionError ConsentRequired)"
  by (simp add: ingest_fst ingest_enforce_cases is_active_register is_active_extractive_def
        consenting_store_fields given_def register_user_fields default_consent_def)

lemma consenting_active:
  "active_users stub_env (stub_readings k) consenting_store = {''u1''}"
  "active_users stub_env (stub_readings k) (register_user consenting_store ''u2'') = {''u1''}"
  by (auto simp: active_users_def is_active_register register_user_fields
        consenting_store_fields is_active_extractive_def default_consent_def split: if_splits)

lemma demo_admitted: "admitted_extractive stub_env init_store demo_calls = 3"
  by (simp add: demo_calls_def evals)

lemma demo_created_ids:
  "created_ids stub_env init_store demo_calls = [''artifact_20'', ''artifact_21'', ''artifact_22'']"
  by (simp add: demo_calls_def evals)

lemma demo_published:
  "published_events stub_env init_store demo_calls = [''artifact_20'', ''artifact_21'']"
  by (simp add: demo_calls_def evals)

lemma demo_created:
  "created_artifacts stub_env init_store demo_calls
     = {''artifact_20'', ''artifact_21'', ''artifact_22''}"
  by (auto simp: demo_calls_def evals)

lemma demo_states:
  "artifact_state (run stub_env init_store demo_calls) =
     [''artifact_20'' \<mapsto> ''archived'', ''artifact_21'' \<mapsto> ''published'',
      ''artifact_22'' \<mapsto> ''generated'']"
  by (simp add: demo_calls_def evals fun_upd_twist)

lemma demo_users: "known_users (run stub_env init_store demo_calls) = {''u1''}"
  by (simp add: demo_calls_def evals)

lemma demo_published_count: "published_count (run stub_env init_store demo_calls) = 2"
  by (simp add: demo_calls_def evals)

lemma demo_used_store:
  "artifact_state (run stub_env init_store (take 8 demo_calls)) ''artifact_21'' = Some ''used''"
  by (simp add: demo_calls_def evals)

lemma collision_run:
  "admitted_extractive stub_env init_store collision_calls = 3"
  "published_events stub_env init_store collision_calls
     = [''artifact_20'', ''artifact_20'', ''artifact_21'']"
  "extractive_ingests (run stub_env init_store collision_calls) = 3"
  "published_count (run stub_env init_store collision_calls) = 3"
  "artifact_state (run stub_env init_store collision_calls) ''artifact_20'' = Some ''archived''"
  "artifact_state (run stub_env init_store collision_calls) ''artifact_21'' = Some ''published''"
  by (simp_all add: collision_calls_def evals)

lemma consenting_history:
  "get_consent_history consenting_store ''u1'' =
     [issued stub_clock ''u1|{'extractive': True, 'expires': None, 'scope': ['research']}''
        \<lparr>extractive = True, expires = None, scope = Passed 0\<rparr>]"
  by (simp add: consenting_store_def consenting_calls_def evals)

lemma appended_store_fields:
  "get_consent_history appended_store ''u1'' = get_consent_history consenting_store ''u1''"
  "caller_lists appended_store 0 = [''research'', ''ads'']"
  by (simp_all add: appended_store_def consenting_store_def run_append get_consent_history_def)

section \<open>Ingestion gating\<close>



text \<open>
  C9. A call of \<^verbatim>\<open>ingest\<close> that raises leaves the store that \<^verbatim>\<open>register_user\<close> produces:
  the user is a known user, and a user without consent entry or receipt history has the
  default consent state and an empty history. After any run from the fresh store, a raising
  call for a user who was not known makes \<^verbatim>\<open>total_users\<close> of the audit one larger. It can
  lower RIM-1: in the store where one user consents, RIM-1 is 1, and after a denied
  extractive ingestion by a second user it is one half.
\<close>

theorem denied_ingest_registers:
  "(fst (ingest e clk s uid payload ex rs) = Inl err \<longrightarrow>
      snd (ingest e clk s uid payload ex rs) = register_user s uid
    \<and> known_users (snd (ingest e clk s uid payload ex rs)) = insert uid (known_users s)
    \<and> (consent s uid = None \<longrightarrow>
         consent (snd (ingest e clk s uid payload ex rs)) uid = Some default_consent)
    \<and> (receipts s uid = None \<longrightarrow>
         receipts (snd (ingest e clk s uid payload ex rs)) uid = Some []))
   \<and> (fst (ingest e clk (run e init_store cs) uid payload ex rs) = Inl err
        \<and> uid \<notin> known_users (run e init_store cs) \<longrightarrow>
      (\<exists>rep rep'. audit e rd (run e init_store cs) = Inr rep
         \<and> audit e rd (snd (ingest e clk (run e init_store cs) uid payload ex rs)) = Inr rep'
         \<and> total_users rep' = total_users rep + 1))
   \<and> (\<exists>rep rep'. audit stub_env stub_readings consenting_store = Inr rep
         \<and> fst (ingest stub_env stub_clock consenting_store ''u2'' ''x'' True None)
              = Inl (PermissionError ConsentRequired)
         \<and> audit stub_env stub_readings
              (snd (ingest stub_env stub_clock consenting_store ''u2'' ''x'' True None)) = Inr rep'
         \<and> RIM_1 rep = 1 \<and> RIM_1 rep' = 1 / 2)"
proof -
  have 1: "fst (ingest e clk s uid payload ex rs) = Inl err \<longrightarrow>
      snd (ingest e clk s uid payload ex rs) = register_user s uid
    \<and> known_users (snd (ingest e clk s uid payload ex rs)) = insert uid (known_users s)
    \<and> (consent s uid = None \<longrightarrow>
         consent (snd (ingest e clk s uid payload ex rs)) uid = Some default_consent)
    \<and> (receipts s uid = None \<longrightarrow>
         receipts (snd (ingest e clk s uid payload ex rs)) uid = Some [])"
    by (auto simp: register_user_fields dest!: ingest_raises_snd)
  have 2: "fst (ingest e clk (run e init_store cs) uid payload ex rs) = Inl err
        \<and> uid \<notin> known_users (run e init_store cs) \<longrightarrow>
      (\<exists>rep rep'. audit e rd (run e init_store cs) = Inr rep
         \<and> audit e rd (snd (ingest e clk (run e init_store cs) uid payload ex rs)) = Inr rep'
         \<and> total_users rep' = total_users rep + 1)"
  proof
    let ?s = "run e init_store cs"
    assume h: "fst (ingest e clk ?s uid payload ex rs) = Inl err \<and> uid \<notin> known_users ?s"
    have fin: "finite (known_users ?s)"
      by (rule finite_users_run) (simp add: init_store_def)
    obtain rep where rep: "audit e rd ?s = Inr rep"
      using audit_returns by blast
    obtain rep' where rep': "audit e rd (snd (ingest e clk ?s uid payload ex rs)) = Inr rep'"
      using audit_returns by blast
    have "total_users rep' = total_users rep + 1"
      using h fin by (simp add: audit_fields(1) [OF rep] audit_fields(1) [OF rep'] ingest_fields)
    with rep rep' show "\<exists>rep rep'. audit e rd ?s = Inr rep
         \<and> audit e rd (snd (ingest e clk ?s uid payload ex rs)) = Inr rep'
         \<and> total_users rep' = total_users rep + 1"
      by blast
  qed
  have 3: "\<exists>rep rep'. audit stub_env stub_readings consenting_store = Inr rep
         \<and> fst (ingest stub_env stub_clock consenting_store ''u2'' ''x'' True None)
              = Inl (PermissionError ConsentRequired)
         \<and> audit stub_env stub_readings
              (snd (ingest stub_env stub_clock consenting_store ''u2'' ''x'' True None)) = Inr rep'
         \<and> RIM_1 rep = 1 \<and> RIM_1 rep' = 1 / 2"
  proof -
    let ?s' = "snd (ingest stub_env stub_clock consenting_store ''u2'' ''x'' True None)"
    have s': "?s' = register_user consenting_store ''u2''"
      using consenting_denied by (rule ingest_raises_snd)
    obtain rep where rep: "audit stub_env stub_readings consenting_store = Inr rep"
      using audit_returns by blast
    obtain rep' where rep': "audit stub_env stub_readings ?s' = Inr rep'"
      using audit_returns by blast
    have k: "known_users consenting_store = {''u1''}"
      by (simp add: consenting_store_fields)
    have a: "RIM_1 rep = 1"
      by (simp add: audit_fields(4) [OF rep] consenting_active k round4_eval)
    have b: "RIM_1 rep' = 1 / 2"
      using rep' unfolding s'
      by (simp add: audit_fields(4) consenting_active register_user_fields k round4_eval)
    from rep rep' a b consenting_denied show ?thesis by blast
  qed
  from 1 2 3 show ?thesis by blast
qed

theorem denied_ingest_registers_witness:
  "known_users (snd (ingest stub_env stub_clock consenting_store ''u2'' ''x'' True None))
     = {''u2'', ''u1''}
   \<and> consent (snd (ingest stub_env stub_clock consenting_store ''u2'' ''x'' True None)) ''u2''
     = Some default_consent
   \<and> receipts (snd (ingest stub_env stub_clock consenting_store ''u2'' ''x'' True None)) ''u2''
     = Some []
   \<and> (\<exists>rep rep'. audit stub_env stub_readings consenting_store = Inr rep
        \<and> audit stub_env stub_readings
             (snd (ingest stub_env stub_clock consenting_store ''u2'' ''x'' True None)) = Inr rep'
        \<and> total_users rep' = total_users rep + 1)"
proof -
  have k: "known_users consenting_store = {''u1''}" "consent consenting_store ''u2'' = None"
    "receipts consenting_store ''u2'' = None"
    by (simp_all add: consenting_store_fields)
  have n: "''u2'' \<notin> known_users consenting_store"
    by (simp add: k)
  note th = denied_ingest_registers [where e = stub_env and clk = stub_clock
      and s = consenting_store and uid = "''u2''" and payload = "''x''" and ex = True
      and rs = None and err = "PermissionError ConsentRequired"
      and cs = consenting_calls and rd = stub_readings, folded consenting_store_def]
  let ?s' = "snd (ingest stub_env stub_clock consenting_store ''u2'' ''x'' True None)"
  from th consenting_denied
  have "known_users ?s' = insert ''u2'' (known_users consenting_store)"
    by blast
  then have 1: "known_users ?s' = {''u2'', ''u1''}"
    by (simp only: k(1))
  from th consenting_denied k(2) have 2: "consent ?s' ''u2'' = Some default_consent"
    by blast
  from th consenting_denied k(3) have 3: "receipts ?s' ''u2'' = Some []"
    by blast
  from th consenting_denied n
  have 4: "\<exists>rep rep'. audit stub_env stub_readings consenting_store = Inr rep
        \<and> audit stub_env stub_readings ?s' = Inr rep'
        \<and> total_users rep' = total_users rep + 1"
    by blast
  from 1 2 3 4 show ?thesis by blast
qed

section \<open>Active consent and revocation\<close>

text \<open>
  C3. \<^verbatim>\<open>is_active_extractive\<close> is false for a user without a consent entry and for a user
  whose extractive flag is false. With the flag true and an expiry whose date portion
  parses, it is false exactly when today is strictly after that date. With the flag true
  and an expiry that is empty or does not parse, it is true; with the flag true and no
  expiry, it is true.
\<close>

theorem is_active_extractive_cases:
  "(consent s uid = None \<longrightarrow> \<not> is_active_extractive e clk s uid)
   \<and> (\<forall>c. consent s uid = Some c \<and> \<not> extractive c \<longrightarrow> \<not> is_active_extractive e clk s uid)
   \<and> (\<forall>c x d. consent s uid = Some c \<and> extractive c \<and> expires c = Some x \<and> x \<noteq> []
          \<and> fromisoformat_date e (date_portion x) = Some d
        \<longrightarrow> (is_active_extractive e clk s uid = False) = (today clk > d))
   \<and> (\<forall>c x. consent s uid = Some c \<and> extractive c \<and> expires c = Some x
          \<and> (x = [] \<or> fromisoformat_date e (date_portion x) = None)
        \<longrightarrow> is_active_extractive e clk s uid)
   \<and> (\<forall>c. consent s uid = Some c \<and> extractive c \<and> expires c = None
        \<longrightarrow> is_active_extractive e clk s uid)"
  by (auto simp: is_active_extractive_def)

theorem is_active_extractive_cases_witness:
  "\<not> is_active_extractive stub_env stub_clock init_store ''u1''
   \<and> \<not> is_active_extractive stub_env stub_clock (register_user init_store ''u1'') ''u1''
   \<and> is_active_extractive stub_env stub_clock expired_store ''u1'' = False
   \<and> is_active_extractive stub_env early_clock expired_store ''u1''
   \<and> is_active_extractive stub_env stub_clock malformed_store ''u1''
   \<and> is_active_extractive stub_env stub_clock consenting_store ''u1''"
proof -
  have a: "consent init_store ''u1'' = None"
    by (simp add: init_store_def)
  have r: "consent (register_user init_store ''u1'') ''u1'' = Some default_consent"
    "\<not> extractive default_consent"
    by (simp_all add: register_user_fields init_store_def default_consent_def)
  have b: "fromisoformat_date stub_env (date_portion ''2024-01-01T10:00:00'') = Some 738886"
    "today stub_clock > 738886" "\<not> today early_clock > 738886"
    by (simp_all add: stub_env_def stub_clock_def early_clock_def date_portion_def)
  have c: "fromisoformat_date stub_env (date_portion ''soon'') = None"
    by (simp add: stub_env_def date_portion_def)
  from is_active_extractive_cases [of init_store "''u1''" stub_env stub_clock] a
  have 1: "\<not> is_active_extractive stub_env stub_clock init_store ''u1''"
    by blast
  from is_active_extractive_cases [of "register_user init_store ''u1''" "''u1''" stub_env
      stub_clock] r
  have 2: "\<not> is_active_extractive stub_env stub_clock (register_user init_store ''u1'') ''u1''"
    by blast
  from is_active_extractive_cases [of expired_store "''u1''" stub_env stub_clock]
    expired_store_consent(1) b
  have 3: "is_active_extractive stub_env stub_clock expired_store ''u1'' = False"
    by simp
  from is_active_extractive_cases [of expired_store "''u1''" stub_env early_clock]
    expired_store_consent(1) b
  have 4: "is_active_extractive stub_env early_clock expired_store ''u1''"
    by simp
  from is_active_extractive_cases [of malformed_store "''u1''" stub_env stub_clock]
    malformed_store_consent c
  have 5: "is_active_extractive stub_env stub_clock malformed_store ''u1''"
    by simp
  from is_active_extractive_cases [of consenting_store "''u1''" stub_env stub_clock]
    consenting_store_fields(2)
  have 6: "is_active_extractive stub_env stub_clock consenting_store ''u1''"
    by simp
  from 1 2 3 4 5 6 show ?thesis by blast
qed

text \<open>
  C7. In the store that \<^verbatim>\<open>revoke_consent\<close> leaves, \<^verbatim>\<open>is_active_extractive\<close> is false for the
  user, whatever the clock and the parser, also when the call raises. A user who had a
  consent state keeps its expiry and its scope: the same list object, with the same content.
  A user who had none gets the default state. The call returns the receipt, or raises
  \<^verbatim>\<open>UnicodeEncodeError\<close> where the text to be hashed does not encode.
\<close>

theorem revoke_consent_inactive:
  "fst (revoke_consent e clk s uid) =
     (case receipt_digest e (caller_lists s) uid (revoked s uid) of
        None \<Rightarrow> Inl UnicodeEncodeError | Some r \<Rightarrow> Inr r)
   \<and> (\<forall>e' clk'. \<not> is_active_extractive e' clk' (snd (revoke_consent e clk s uid)) uid)
   \<and> (\<forall>c. consent s uid = Some c \<longrightarrow>
         (\<exists>c'. consent (snd (revoke_consent e clk s uid)) uid = Some c'
               \<and> \<not> extractive c' \<and> expires c' = expires c \<and> scope c' = scope c
               \<and> scope_list (caller_lists (snd (revoke_consent e clk s uid))) c'
                   = scope_list (caller_lists s) c))
   \<and> (consent s uid = None \<longrightarrow>
         consent (snd (revoke_consent e clk s uid)) uid = Some default_consent)"
  by (auto simp: revoke_consent_eq issue_fst issue_fields revoked_def is_active_extractive_def
        default_consent_def scope_list_def split: option.splits)

theorem revoke_consent_inactive_witness:
  "\<not> is_active_extractive stub_env stub_clock
        (snd (revoke_consent stub_env stub_clock consenting_store ''u1'')) ''u1''
   \<and> \<not> is_active_extractive stub_env stub_clock
        (snd (revoke_consent stub_env stub_clock malformed_store ''u1'')) ''u1''
   \<and> consent (snd (revoke_consent stub_env stub_clock expired_store ''u1'')) ''u1'' =
       Some \<lparr>extractive = False, expires = Some ''2024-01-01T10:00:00'', scope = Passed 0\<rparr>
   \<and> caller_lists (snd (revoke_consent stub_env stub_clock expired_store ''u1'')) 0
       = [''research'']
   \<and> consent (snd (revoke_consent stub_env stub_clock init_store ''u2'')) ''u2'' =
       Some default_consent"
proof -
  have a: "consent init_store ''u2'' = None"
    by (simp add: init_store_def)
  from revoke_consent_inactive [of stub_env stub_clock consenting_store "''u1''"]
  have 0: "\<not> is_active_extractive stub_env stub_clock
        (snd (revoke_consent stub_env stub_clock consenting_store ''u1'')) ''u1''"
    by blast
  from revoke_consent_inactive [of stub_env stub_clock malformed_store "''u1''"]
  have 1: "\<not> is_active_extractive stub_env stub_clock
        (snd (revoke_consent stub_env stub_clock malformed_store ''u1'')) ''u1''"
    by blast
  from revoke_consent_inactive [of stub_env stub_clock expired_store "''u1''"]
    expired_store_consent(1)
  obtain c' where c': "consent (snd (revoke_consent stub_env stub_clock expired_store ''u1'')) ''u1''
        = Some c'"
    "\<not> extractive c'" "expires c' = Some ''2024-01-01T10:00:00''" "scope c' = Passed 0"
    "scope_list (caller_lists (snd (revoke_consent stub_env stub_clock expired_store ''u1''))) c'
       = scope_list (caller_lists expired_store)
           \<lparr>extractive = True, expires = Some ''2024-01-01T10:00:00'', scope = Passed 0\<rparr>"
    by auto
  from c'(2,3,4)
  have "c' = \<lparr>extractive = False, expires = Some ''2024-01-01T10:00:00'', scope = Passed 0\<rparr>"
    by (cases c') simp
  with c'(1)
  have 2: "consent (snd (revoke_consent stub_env stub_clock expired_store ''u1'')) ''u1'' =
       Some \<lparr>extractive = False, expires = Some ''2024-01-01T10:00:00'', scope = Passed 0\<rparr>"
    by simp
  from c'(4,5) expired_store_consent(2)
  have 3: "caller_lists (snd (revoke_consent stub_env stub_clock expired_store ''u1'')) 0
       = [''research'']"
    by (simp add: scope_list_def)
  from revoke_consent_inactive [of stub_env stub_clock init_store "''u2''"] a
  have 4: "consent (snd (revoke_consent stub_env stub_clock init_store ''u2'')) ''u2'' =
       Some default_consent"
    by blast
  from 0 1 2 3 4 show ?thesis by blast
qed

section \<open>Receipts and the anchor\<close>

text \<open>
  What \<^verbatim>\<open>set_consent\<close> and \<^verbatim>\<open>revoke_consent\<close> append. Where the text to be hashed encodes,
  the call returns the digest and appends exactly one record to the history of the user and
  exactly one entry to the anchor; where it does not, the call raises and appends nothing,
  with the consent state already assigned. Either way the other histories stay, and after
  any run from the fresh store the anchor is as long as all histories together.
\<close>

lemma set_consent_appends:
  "receipt_digest e (caller_lists s) uid \<lparr>extractive = ex, expires = x, scope = scope_arg sc\<rparr>
     = Some r \<Longrightarrow>
   fst (set_consent e clk s uid ex x sc) = Inr r
   \<and> get_consent_history (snd (set_consent e clk s uid ex x sc)) uid =
       get_consent_history s uid
         @ [issued clk r \<lparr>extractive = ex, expires = x, scope = scope_arg sc\<rparr>]
   \<and> receipt_anchor (snd (set_consent e clk s uid ex x sc)) = receipt_anchor s @ [anchored clk r]"
  by (simp add: set_consent_eq issue_fst issue_history issue_fields)

lemma revoke_consent_appends:
  "receipt_digest e (caller_lists s) uid (revoked s uid) = Some r \<Longrightarrow>
   fst (revoke_consent e clk s uid) = Inr r
   \<and> get_consent_history (snd (revoke_consent e clk s uid)) uid =
       get_consent_history s uid @ [issued clk r (revoked s uid)]
   \<and> receipt_anchor (snd (revoke_consent e clk s uid)) = receipt_anchor s @ [anchored clk r]"
  by (simp add: revoke_consent_eq issue_fst issue_history issue_fields)

lemma set_consent_raises:
  "receipt_digest e (caller_lists s) uid \<lparr>extractive = ex, expires = x, scope = scope_arg sc\<rparr>
     = None \<Longrightarrow>
   fst (set_consent e clk s uid ex x sc) = Inl UnicodeEncodeError
   \<and> consent (snd (set_consent e clk s uid ex x sc)) uid
       = Some \<lparr>extractive = ex, expires = x, scope = scope_arg sc\<rparr>
   \<and> get_consent_history (snd (set_consent e clk s uid ex x sc)) uid = get_consent_history s uid
   \<and> receipt_anchor (snd (set_consent e clk s uid ex x sc)) = receipt_anchor s"
  by (simp add: set_consent_eq issue_fst issue_history issue_fields)

lemma revoke_consent_raises:
  "receipt_digest e (caller_lists s) uid (revoked s uid) = None \<Longrightarrow>
   fst (revoke_consent e clk s uid) = Inl UnicodeEncodeError
   \<and> consent (snd (revoke_consent e clk s uid)) uid = Some (revoked s uid)
   \<and> get_consent_history (snd (revoke_consent e clk s uid)) uid = get_consent_history s uid
   \<and> receipt_anchor (snd (revoke_consent e clk s uid)) = receipt_anchor s"
  by (simp add: revoke_consent_eq issue_fst issue_history issue_fields)

lemma other_histories_kept:
  "u \<noteq> uid \<Longrightarrow>
   get_consent_history (snd (set_consent e clk s uid ex x sc)) u = get_consent_history s u
   \<and> get_consent_history (snd (revoke_consent e clk s uid)) u = get_consent_history s u"
  by (simp add: set_consent_eq revoke_consent_eq issue_history)

lemma anchor_matches_histories:
  "finite (dom (receipts (run e init_store cs)))
   \<and> length (receipt_anchor (run e init_store cs)) = receipts_total (run e init_store cs)
   \<and> (\<exists>rep. audit e rd (run e init_store cs) = Inr rep
            \<and> anchored_receipts rep = total_receipts_issued rep)"
proof -
  have b: "anchor_balanced (run e init_store cs)"
    by (rule run_anchor_balanced) (rule init_anchor_balanced)
  obtain rep where rep: "audit e rd (run e init_store cs) = Inr rep"
    using audit_returns by blast
  with b have "anchored_receipts rep = total_receipts_issued rep"
    by (simp add: audit_fields anchor_balanced_def)
  with rep b show ?thesis
    by (simp add: anchor_balanced_def)
qed

text \<open>
  C2. The claim that every call of \<^verbatim>\<open>set_consent\<close> and \<^verbatim>\<open>revoke_consent\<close> appends exactly one
  record and one anchor entry fails for a user id that does not encode. For the user id with
  a lone surrogate, on the fresh store, \<^verbatim>\<open>set_consent\<close> raises \<^verbatim>\<open>UnicodeEncodeError\<close> at line
  25: the consent state of the user is already the new one (lines 43 to 50 have run), and
  neither the history of the user nor the anchor has an entry for this change of consent.
  \<^verbatim>\<open>revoke_consent\<close> raises in the same way.
\<close>

theorem consent_change_without_receipt:
  "fst (set_consent stub_env stub_clock init_store surrogate_id True None None)
     = Inl UnicodeEncodeError
   \<and> consent (snd (set_consent stub_env stub_clock init_store surrogate_id True None None))
        surrogate_id
     = Some \<lparr>extractive = True, expires = None, scope = Owned []\<rparr>
   \<and> get_consent_history
        (snd (set_consent stub_env stub_clock init_store surrogate_id True None None))
        surrogate_id = []
   \<and> receipt_anchor (snd (set_consent stub_env stub_clock init_store surrogate_id True None None))
     = []
   \<and> fst (revoke_consent stub_env stub_clock init_store surrogate_id) = Inl UnicodeEncodeError
   \<and> get_consent_history (snd (revoke_consent stub_env stub_clock init_store surrogate_id))
        surrogate_id = []
   \<and> receipt_anchor (snd (revoke_consent stub_env stub_clock init_store surrogate_id)) = []"
proof -
  have enc: "encode_utf8 stub_env (surrogate_id @ rest) = None" for rest
    by (simp add: stub_env_def surrogate_id_def)
  have d: "receipt_digest stub_env heap surrogate_id c = None" for heap c
    by (simp add: receipt_digest_def enc)
  have i: "get_consent_history init_store surrogate_id = []" "receipt_anchor init_store = []"
    by (simp_all add: get_consent_history_def init_store_def)
  note a = set_consent_raises [where e = stub_env and s = init_store and uid = surrogate_id
      and ex = True and x = None and sc = None and clk = stub_clock, OF d]
  note b = revoke_consent_raises [where e = stub_env and s = init_store and uid = surrogate_id
      and clk = stub_clock, OF d]
  from a b i show ?thesis
    by (simp add: scope_arg_def)
qed

text \<open>
  C6. The claim that a stored record re-derives in every later state fails when the caller
  changes the list it passed as scope. \<^verbatim>\<open>set_consent\<close> stores that list object (lines 46 to
  50) and the snapshot is a shallow copy (line 30), so the snapshot shares it. In the store
  where user \<open>u1\<close> consented with the caller's list \<^verbatim>\<open>["research"]\<close>, the one stored record
  re-derives; after the caller has appended \<^verbatim>\<open>"ads"\<close> to its list, the history still holds
  that record with that receipt, and the digest of the user id and the record's snapshot is
  another one.
\<close>

theorem snapshot_shares_scope_list:
  "length (get_consent_history consenting_store ''u1'') = 1
   \<and> receipt_digest stub_env (caller_lists consenting_store) ''u1''
        (snapshot (hd (get_consent_history consenting_store ''u1'')))
     = Some (receipt (hd (get_consent_history consenting_store ''u1'')))
   \<and> get_consent_history appended_store ''u1'' = get_consent_history consenting_store ''u1''
   \<and> receipt_digest stub_env (caller_lists appended_store) ''u1''
        (snapshot (hd (get_consent_history appended_store ''u1'')))
     \<noteq> Some (receipt (hd (get_consent_history appended_store ''u1'')))"
  by (simp add: appended_store_fields consenting_history consenting_store_fields issued_def
        receipt_digest_def str_consent_def scope_list_def stub_env_def)

text \<open>
  C10. After any run from the fresh store (of public calls, and of changes the caller makes
  to its own lists) the users with a consent entry and the users with a receipt history are
  exactly the known users; every call preserves this. So every known user has a consent
  entry, and the audit returns a report: its lookups \<^verbatim>\<open>self.consent[uid]\<close> raise no
  \<^verbatim>\<open>KeyError\<close>.
\<close>

theorem registry_invariant:
  "registry_consistent (run e init_store cs)
   \<and> (registry_consistent s \<longrightarrow> registry_consistent (snd (exec e clk s c)))
   \<and> (\<forall>uid \<in> known_users (run e init_store cs). consent (run e init_store cs) uid \<noteq> None)
   \<and> (\<exists>rep. audit e rd (run e init_store cs) = Inr rep)"
proof -
  have 1: "registry_consistent (run e init_store cs)"
    by (rule run_registry) (rule init_registry)
  then have 2: "\<forall>uid \<in> known_users (run e init_store cs). consent (run e init_store cs) uid \<noteq> None"
    by (auto simp: registry_consistent_def)
  from 1 2 show ?thesis
    by (simp add: exec_registry audit_returns)
qed

theorem registry_invariant_witness:
  "registry_consistent (snd (exec stub_env stub_clock init_store (Register_user ''u9'')))
   \<and> consent (run stub_env init_store demo_calls) ''u1'' \<noteq> None
   \<and> (\<exists>rep. audit stub_env stub_readings (run stub_env init_store demo_calls) = Inr rep)"
proof -
  have "''u1'' \<in> known_users (run stub_env init_store demo_calls)"
    by (simp add: demo_users)
  with registry_invariant [where e = stub_env and cs = demo_calls and s = init_store
      and clk = stub_clock and c = "Register_user ''u9''" and rd = stub_readings]
    init_registry
  show ?thesis by blast
qed

section \<open>The artifact lifecycle\<close>

text \<open>
  C4. \<^verbatim>\<open>transition_artifact_state\<close> raises \<^verbatim>\<open>ValueError\<close> (not found) for an artifact id
  that no admitted extractive ingestion of the run returned, and for any id without a
  state; it raises \<^verbatim>\<open>ValueError\<close> (invalid transition) when the new state is not in the
  table's row of the current state, and succeeds when it is. From \<^verbatim>\<open>generated\<close> the
  transition to \<^verbatim>\<open>published\<close> fails, the chain generated, used, published, archived
  succeeds at each step, and from \<^verbatim>\<open>archived\<close> every transition fails. In each failure the
  store is unchanged.
\<close>

theorem transition_lifecycle:
  "(aid \<notin> created_artifacts e init_store cs \<longrightarrow>
      transition_artifact_state (run e init_store cs) aid ns
        = (Inl (ValueError (ArtifactNotFound aid)), run e init_store cs))
   \<and> (artifact_state s aid = None \<longrightarrow>
      transition_artifact_state s aid ns = (Inl (ValueError (ArtifactNotFound aid)), s))
   \<and> (\<forall>cur. artifact_state s aid = Some cur \<and> ns \<notin> lifecycle_table cur \<longrightarrow>
      transition_artifact_state s aid ns = (Inl (ValueError (InvalidTransition cur ns)), s))
   \<and> (\<forall>cur. artifact_state s aid = Some cur \<and> ns \<in> lifecycle_table cur \<longrightarrow>
      fst (transition_artifact_state s aid ns) = Inr ()
      \<and> artifact_state (snd (transition_artifact_state s aid ns)) = (artifact_state s)(aid \<mapsto> ns))
   \<and> (artifact_state s aid = Some ''generated'' \<longrightarrow>
      fst (transition_artifact_state s aid ''published'')
        = Inl (ValueError (InvalidTransition ''generated'' ''published'')))
   \<and> (artifact_state s aid = Some ''generated'' \<longrightarrow>
      fst (transition_artifact_state s aid ''used'') = Inr ()
      \<and> fst (transition_artifact_state (snd (transition_artifact_state s aid ''used'')) aid
            ''published'') = Inr ()
      \<and> fst (transition_artifact_state
               (snd (transition_artifact_state (snd (transition_artifact_state s aid ''used''))
                  aid ''published'')) aid ''archived'') = Inr ()
      \<and> artifact_state (snd (transition_artifact_state
               (snd (transition_artifact_state (snd (transition_artifact_state s aid ''used''))
                  aid ''published'')) aid ''archived'')) aid = Some ''archived'')
   \<and> (artifact_state s aid = Some ''archived'' \<longrightarrow>
      transition_artifact_state s aid ns
        = (Inl (ValueError (InvalidTransition ''archived'' ns)), s))"
proof -
  have 1: "aid \<notin> created_artifacts e init_store cs \<longrightarrow>
      transition_artifact_state (run e init_store cs) aid ns
        = (Inl (ValueError (ArtifactNotFound aid)), run e init_store cs)"
  proof
    assume "aid \<notin> created_artifacts e init_store cs"
    then have "aid \<notin> dom (artifact_state (run e init_store cs))"
      by (simp add: run_artifact_dom init_artifacts)
    then have "artifact_state (run e init_store cs) aid = None"
      by auto
    then show "transition_artifact_state (run e init_store cs) aid ns
        = (Inl (ValueError (ArtifactNotFound aid)), run e init_store cs)"
      by (simp add: transition_cases)
  qed
  have 2: "artifact_state s aid = None \<longrightarrow>
      transition_artifact_state s aid ns = (Inl (ValueError (ArtifactNotFound aid)), s)"
    by (simp add: transition_cases)
  have 3: "\<forall>cur. artifact_state s aid = Some cur \<and> ns \<notin> lifecycle_table cur \<longrightarrow>
      transition_artifact_state s aid ns = (Inl (ValueError (InvalidTransition cur ns)), s)"
    by (simp add: transition_cases)
  have 4: "\<forall>cur. artifact_state s aid = Some cur \<and> ns \<in> lifecycle_table cur \<longrightarrow>
      fst (transition_artifact_state s aid ns) = Inr ()
      \<and> artifact_state (snd (transition_artifact_state s aid ns)) = (artifact_state s)(aid \<mapsto> ns)"
    by (simp add: transition_cases)
  have 5: "artifact_state s aid = Some ''generated'' \<longrightarrow>
      fst (transition_artifact_state s aid ''published'')
        = Inl (ValueError (InvalidTransition ''generated'' ''published''))"
    by (simp add: transition_cases lifecycle_table_def)
  have 6: "artifact_state s aid = Some ''generated'' \<longrightarrow>
      fst (transition_artifact_state s aid ''used'') = Inr ()
      \<and> fst (transition_artifact_state (snd (transition_artifact_state s aid ''used'')) aid
            ''published'') = Inr ()
      \<and> fst (transition_artifact_state
               (snd (transition_artifact_state (snd (transition_artifact_state s aid ''used''))
                  aid ''published'')) aid ''archived'') = Inr ()
      \<and> artifact_state (snd (transition_artifact_state
               (snd (transition_artifact_state (snd (transition_artifact_state s aid ''used''))
                  aid ''published'')) aid ''archived'')) aid = Some ''archived''"
    by (simp add: transition_cases lifecycle_table_def)
  have 7: "artifact_state s aid = Some ''archived'' \<longrightarrow>
      transition_artifact_state s aid ns
        = (Inl (ValueError (InvalidTransition ''archived'' ns)), s)"
    by (simp add: transition_cases lifecycle_table_def)
  from 1 2 3 4 5 6 7 show ?thesis by blast
qed

theorem transition_lifecycle_witness:
  "transition_artifact_state (run stub_env init_store demo_calls) ''ghost'' ''used''
     = (Inl (ValueError (ArtifactNotFound ''ghost'')), run stub_env init_store demo_calls)
   \<and> fst (transition_artifact_state (run stub_env init_store demo_calls) ''artifact_22''
          ''published'')
     = Inl (ValueError (InvalidTransition ''generated'' ''published''))
   \<and> fst (transition_artifact_state (run stub_env init_store demo_calls) ''artifact_22'' ''used'')
     = Inr ()
   \<and> artifact_state (snd (transition_artifact_state
        (snd (transition_artifact_state
           (snd (transition_artifact_state (run stub_env init_store demo_calls)
              ''artifact_22'' ''used''))
           ''artifact_22'' ''published''))
        ''artifact_22'' ''archived'')) ''artifact_22'' = Some ''archived''
   \<and> fst (transition_artifact_state (run stub_env init_store demo_calls) ''artifact_20'' ''used'')
     = Inl (ValueError (InvalidTransition ''archived'' ''used''))
   \<and> fst (transition_artifact_state (run stub_env init_store demo_calls) ''artifact_21'' ''used'')
     = Inl (ValueError (InvalidTransition ''published'' ''used''))"
proof -
  let ?s = "run stub_env init_store demo_calls"
  have g: "''ghost'' \<notin> created_artifacts stub_env init_store demo_calls"
    by (simp add: demo_created)
  have a22: "artifact_state ?s ''artifact_22'' = Some ''generated''"
    and a20: "artifact_state ?s ''artifact_20'' = Some ''archived''"
    and a21: "artifact_state ?s ''artifact_21'' = Some ''published''"
    by (simp_all add: demo_states)
  have t: "''used'' \<notin> lifecycle_table ''published''"
    by (simp add: lifecycle_table_def)
  from transition_lifecycle [of "''ghost''" stub_env demo_calls "''used''" ?s] g
  have 1: "transition_artifact_state ?s ''ghost'' ''used''
     = (Inl (ValueError (ArtifactNotFound ''ghost'')), ?s)"
    by blast
  from transition_lifecycle [of "''artifact_22''" stub_env demo_calls "''used''" ?s] a22
  have 2: "fst (transition_artifact_state ?s ''artifact_22'' ''published'')
       = Inl (ValueError (InvalidTransition ''generated'' ''published''))
     \<and> fst (transition_artifact_state ?s ''artifact_22'' ''used'') = Inr ()
     \<and> artifact_state (snd (transition_artifact_state
        (snd (transition_artifact_state
           (snd (transition_artifact_state ?s ''artifact_22'' ''used''))
           ''artifact_22'' ''published''))
        ''artifact_22'' ''archived'')) ''artifact_22'' = Some ''archived''"
    by blast
  from transition_lifecycle [of "''artifact_20''" stub_env demo_calls "''used''" ?s] a20
  have 3: "fst (transition_artifact_state ?s ''artifact_20'' ''used'')
     = Inl (ValueError (InvalidTransition ''archived'' ''used''))"
    by simp
  from transition_lifecycle [of "''artifact_21''" stub_env demo_calls "''used''" ?s] a21 t
  have 4: "fst (transition_artifact_state ?s ''artifact_21'' ''used'')
     = Inl (ValueError (InvalidTransition ''published'' ''used''))"
    by simp
  from 1 2 3 4 show ?thesis by blast
qed

text \<open>
  The claim C5 as it is worded, with two distinct artifacts ever published among three
  admitted extractive ingestions, fails when an ingestion returns the id of an artifact that
  exists: \<^verbatim>\<open>ingest\<close> sets the state of that artifact back to \<^verbatim>\<open>generated\<close> (line 102), and it
  can be published once more. In the run below artifacts 20 and 21 are the two artifacts
  ever published, three ingestions were admitted, artifact 20 is archived at the end, and
  RIM-6 is 1.
\<close>

theorem published_twice_counterexample:
  "admitted_extractive stub_env init_store collision_calls = 3
   \<and> set (published_events stub_env init_store collision_calls) = {''artifact_20'', ''artifact_21''}
   \<and> card (set (published_events stub_env init_store collision_calls)) = 2
   \<and> artifact_state (run stub_env init_store collision_calls) ''artifact_20'' = Some ''archived''
   \<and> \<not> isl (audit stub_env stub_readings (run stub_env init_store collision_calls))
   \<and> RIM_6 (projr (audit stub_env stub_readings (run stub_env init_store collision_calls))) = 1
   \<and> RIM_6 (projr (audit stub_env stub_readings (run stub_env init_store collision_calls)))
       \<noteq> 6667 / 10000"
proof -
  obtain rep where rep: "audit stub_env stub_readings (run stub_env init_store collision_calls)
      = Inr rep"
    using audit_returns by blast
  have "RIM_6 rep = 1"
    by (simp add: audit_fields(5) [OF rep] collision_run round4_eval)
  with rep show ?thesis
    by (simp add: collision_run)
qed

text \<open>
  C5, amended. A successful transition into \<^verbatim>\<open>published\<close> adds exactly one to
  \<^verbatim>\<open>published_count\<close>; a failed transition and a transition into another state leave it;
  archiving a published artifact succeeds and leaves it; no call and no run of calls makes
  it smaller. In a run from the fresh store with three admitted extractive ingestions that
  returned pairwise distinct artifact ids, in which two distinct artifacts were ever
  transitioned into \<^verbatim>\<open>published\<close>, the audit reports RIM-6 = 0.6667; whatever the ids, it
  does so when exactly two transitions into \<^verbatim>\<open>published\<close> succeeded.
\<close>

theorem published_count_ever:
  "(fst (transition_artifact_state s aid ''published'') = Inr () \<longrightarrow>
      published_count (snd (transition_artifact_state s aid ''published'')) = published_count s + 1)
   \<and> (fst (transition_artifact_state s aid ns) \<noteq> Inr () \<or> ns \<noteq> ''published'' \<longrightarrow>
      published_count (snd (transition_artifact_state s aid ns)) = published_count s)
   \<and> (artifact_state s aid = Some ''published'' \<longrightarrow>
        fst (transition_artifact_state s aid ''archived'') = Inr ()
      \<and> published_count (snd (transition_artifact_state s aid ''archived'')) = published_count s)
   \<and> published_count s \<le> published_count (snd (exec e clk s c))
   \<and> published_count s \<le> published_count (run e s cs)
   \<and> (admitted_extractive e init_store cs = 3
        \<and> distinct (created_ids e init_store cs)
        \<and> card (set (published_events e init_store cs)) = 2 \<longrightarrow>
        (\<exists>rep. audit e rd (run e init_store cs) = Inr rep \<and> RIM_6 rep = 6667 / 10000))
   \<and> (admitted_extractive e init_store cs = 3
        \<and> length (published_events e init_store cs) = 2 \<longrightarrow>
        (\<exists>rep. audit e rd (run e init_store cs) = Inr rep \<and> RIM_6 rep = 6667 / 10000))"
proof -
  have 1: "fst (transition_artifact_state s aid ''published'') = Inr () \<longrightarrow>
      published_count (snd (transition_artifact_state s aid ''published'')) = published_count s + 1"
    by (simp add: transition_published_count)
  have 2: "fst (transition_artifact_state s aid ns) \<noteq> Inr () \<or> ns \<noteq> ''published'' \<longrightarrow>
      published_count (snd (transition_artifact_state s aid ns)) = published_count s"
    by (auto simp: transition_published_count)
  have 3: "artifact_state s aid = Some ''published'' \<longrightarrow>
        fst (transition_artifact_state s aid ''archived'') = Inr ()
      \<and> published_count (snd (transition_artifact_state s aid ''archived'')) = published_count s"
    by (simp add: transition_cases lifecycle_table_def)
  have 4: "published_count s \<le> published_count (snd (exec e clk s c))"
    by (simp add: exec_published_count)
  have 5: "published_count s \<le> published_count (run e s cs)"
    by (simp add: run_published_count)
  have 7: "admitted_extractive e init_store cs = 3
        \<and> length (published_events e init_store cs) = 2 \<longrightarrow>
        (\<exists>rep. audit e rd (run e init_store cs) = Inr rep \<and> RIM_6 rep = 6667 / 10000)"
  proof
    assume h: "admitted_extractive e init_store cs = 3
        \<and> length (published_events e init_store cs) = 2"
    obtain rep where rep: "audit e rd (run e init_store cs) = Inr rep"
      using audit_returns by blast
    have "extractive_ingests (run e init_store cs) = 3" "published_count (run e init_store cs) = 2"
      using h by (simp_all add: run_extractive_ingests run_published_count init_store_def)
    then have "RIM_6 rep = 6667 / 10000"
      using audit_fields(5) [OF rep] round4_two_thirds by simp
    with rep show "\<exists>rep. audit e rd (run e init_store cs) = Inr rep \<and> RIM_6 rep = 6667 / 10000"
      by blast
  qed
  have 6: "admitted_extractive e init_store cs = 3
        \<and> distinct (created_ids e init_store cs)
        \<and> card (set (published_events e init_store cs)) = 2 \<longrightarrow>
        (\<exists>rep. audit e rd (run e init_store cs) = Inr rep \<and> RIM_6 rep = 6667 / 10000)"
  proof
    assume h: "admitted_extractive e init_store cs = 3
        \<and> distinct (created_ids e init_store cs)
        \<and> card (set (published_events e init_store cs)) = 2"
    then have "distinct (published_events e init_store cs)"
      by (simp add: published_events_distinct_init)
    then have "length (published_events e init_store cs) = 2"
      using h by (simp add: distinct_card)
    with h 7 show "\<exists>rep. audit e rd (run e init_store cs) = Inr rep \<and> RIM_6 rep = 6667 / 10000"
      by blast
  qed
  from 1 2 3 4 5 6 7 show ?thesis by blast
qed

theorem published_count_ever_witness:
  "(\<exists>rep. audit stub_env stub_readings (run stub_env init_store demo_calls) = Inr rep
         \<and> RIM_6 rep = 6667 / 10000)
   \<and> published_count (snd (transition_artifact_state
          (run stub_env init_store (take 8 demo_calls)) ''artifact_21'' ''published''))
     = published_count (run stub_env init_store (take 8 demo_calls)) + 1
   \<and> published_count (snd (transition_artifact_state (run stub_env init_store demo_calls)
          ''artifact_21'' ''archived''))
     = published_count (run stub_env init_store demo_calls)
   \<and> published_count (run stub_env init_store demo_calls) = 2"
proof -
  let ?s = "run stub_env init_store demo_calls"
  let ?s8 = "run stub_env init_store (take 8 demo_calls)"
  have a21: "artifact_state ?s ''artifact_21'' = Some ''published''"
    by (simp add: demo_states)
  have d: "distinct (created_ids stub_env init_store demo_calls)"
    by (simp add: demo_created_ids)
  have c: "card (set (published_events stub_env init_store demo_calls)) = 2"
    by (simp add: demo_published)
  have ok: "fst (transition_artifact_state ?s8 ''artifact_21'' ''published'') = Inr ()"
    by (simp add: transition_cases demo_used_store lifecycle_table_def)
  from published_count_ever [where s = ?s8 and aid = "''artifact_21''"] ok
  have 1: "published_count (snd (transition_artifact_state ?s8 ''artifact_21'' ''published''))
     = published_count ?s8 + 1"
    by blast
  from published_count_ever [where s = ?s and aid = "''artifact_21''" and e = stub_env
      and cs = demo_calls and rd = stub_readings]
    a21 d c demo_admitted
  have 2: "(\<exists>rep. audit stub_env stub_readings ?s = Inr rep \<and> RIM_6 rep = 6667 / 10000)
     \<and> published_count (snd (transition_artifact_state ?s ''artifact_21'' ''archived''))
       = published_count ?s"
    by blast
  from 1 2 demo_published_count show ?thesis by blast
qed

text \<open>
  C8. \<^verbatim>\<open>log_reuse\<close> never raises and appends exactly one entry to the reuse log, also for
  an artifact id without a state. An artifact in state \<^verbatim>\<open>generated\<close> or \<^verbatim>\<open>used\<close> is in
  state \<^verbatim>\<open>used\<close> afterwards (nothing changes if it was \<^verbatim>\<open>used\<close>); the state of an
  artifact in \<^verbatim>\<open>published\<close> or \<^verbatim>\<open>archived\<close>, and of every other artifact, is unchanged.
\<close>

theorem log_reuse_total:
  "fst (log_reuse clk s aid d) = Inr ()
   \<and> reuse_log (snd (log_reuse clk s aid d)) =
       reuse_log s @ [\<lparr>artifact_id = aid, disclosed = d, reuse_timestamp = utcnow_iso clk\<rparr>]
   \<and> (artifact_state s aid = None \<longrightarrow>
        artifact_state (snd (log_reuse clk s aid d)) = artifact_state s)
   \<and> (artifact_state s aid = Some ''generated'' \<or> artifact_state s aid = Some ''used'' \<longrightarrow>
        artifact_state (snd (log_reuse clk s aid d)) = (artifact_state s)(aid \<mapsto> ''used''))
   \<and> (artifact_state s aid = Some ''used'' \<longrightarrow>
        artifact_state (snd (log_reuse clk s aid d)) = artifact_state s)
   \<and> (artifact_state s aid = Some ''published'' \<or> artifact_state s aid = Some ''archived'' \<longrightarrow>
        artifact_state (snd (log_reuse clk s aid d)) = artifact_state s)"
  by (auto simp: log_reuse_eq)

theorem log_reuse_total_witness:
  "fst (log_reuse stub_clock (run stub_env init_store demo_calls) ''ghost'' False) = Inr ()
   \<and> artifact_state (snd (log_reuse stub_clock (run stub_env init_store demo_calls)
        ''ghost'' False)) ''ghost'' = None
   \<and> artifact_state (snd (log_reuse stub_clock (run stub_env init_store demo_calls)
        ''artifact_22'' True)) ''artifact_22'' = Some ''used''
   \<and> artifact_state (snd (log_reuse stub_clock (run stub_env init_store demo_calls)
        ''artifact_21'' True)) ''artifact_21'' = Some ''published''"
proof -
  let ?s = "run stub_env init_store demo_calls"
  have g: "artifact_state ?s ''ghost'' = None"
    and a22: "artifact_state ?s ''artifact_22'' = Some ''generated''"
    and a21: "artifact_state ?s ''artifact_21'' = Some ''published''"
    by (simp_all add: demo_states)
  from log_reuse_total [of stub_clock ?s "''ghost''" False] g
  have 1: "fst (log_reuse stub_clock ?s ''ghost'' False) = Inr ()
     \<and> artifact_state (snd (log_reuse stub_clock ?s ''ghost'' False)) ''ghost'' = None"
    by simp
  from log_reuse_total [of stub_clock ?s "''artifact_22''" True] a22
  have 2: "artifact_state (snd (log_reuse stub_clock ?s ''artifact_22'' True)) ''artifact_22''
       = Some ''used''"
    by simp
  from log_reuse_total [of stub_clock ?s "''artifact_21''" True] a21
  have 3: "artifact_state (snd (log_reuse stub_clock ?s ''artifact_21'' True)) ''artifact_21''
        = Some ''published''"
    by simp
  from 1 2 3 show ?thesis by blast
qed

end
